theory Spec2Isabelle
  imports Main
begin

section \<open>Python values, errors and built-in operations\<close>

text \<open>
  The module \<open>dataloader.py\<close> is embedded function by function. Exceptions are values of
  type \<open>error\<close>; a function that can raise returns \<open>error + 'a\<close> with \<open>Inl\<close> the
  exception. Byte strings and text strings are both \<open>string\<close>.
\<close>

type_synonym bytes = string

datatype error =
    IndexError
  | ValueError string
  | TypeError
  | LmdbError
  | EOFError
  | UnpicklingError
  | OSError
  | CollaboratorError string

text \<open>The objects that can be passed as \<open>classes\<close>, or handed to a target transform.\<close>

datatype pyobj = PStr string | PList "pyobj list" | PInt int | PNone

fun type_repr :: "pyobj \<Rightarrow> string" where
  "type_repr (PStr _) = ''<class 'str'>''"
| "type_repr (PList _) = ''<class 'list'>''"
| "type_repr (PInt _) = ''<class 'int'>''"
| "type_repr PNone = ''<class 'NoneType'>''"

text \<open>\<open>xs[i]\<close> on a Python list: a negative index counts from the end, and an index
  outside \<open>[-len, len)\<close> raises \<open>IndexError\<close>.\<close>

definition py_index :: "'a list \<Rightarrow> int \<Rightarrow> error + 'a" where
  "py_index xs i =
     (if 0 \<le> i \<and> i < int (length xs) then Inr (xs ! nat i)
      else if i < 0 \<and> - int (length xs) \<le> i then Inr (xs ! nat (int (length xs) + i))
      else Inl IndexError)"

text \<open>\<open>s.split(sep)\<close> for a one-character separator: never empty, \<open>''''.split(sep) = ['''']\<close>.\<close>

fun py_split :: "char \<Rightarrow> string \<Rightarrow> string list" where
  "py_split sep [] = [[]]"
| "py_split sep (c # cs) =
     (if c = sep then [] # py_split sep cs
      else (c # hd (py_split sep cs)) # tl (py_split sep cs))"

text \<open>\<open>sep.join(parts)\<close>.\<close>

fun py_join :: "string \<Rightarrow> string list \<Rightarrow> string" where
  "py_join sep [] = []"
| "py_join sep [x] = x"
| "py_join sep (x # y # ys) = x @ sep @ py_join sep (y # ys)"

text \<open>\<open>string.ascii_letters\<close>.\<close>

definition ascii_letters :: string where
  "ascii_letters = ''abcdefghijklmnopqrstuvwxyzABCDEFGHIJKLMNOPQRSTUVWXYZ''"

subsection \<open>The two helpers imported from \<open>torchvision.datasets.utils\<close>\<close>

text \<open>
  \<open>iterable_to_str\<close> and \<open>verify_str_arg\<close> belong to the torchvision library; they are
  modelled after the library's definition:
  \<^verbatim>\<open>
  def iterable_to_str(iterable):
      return "'" + "', '".join([str(item) for item in iterable]) + "'"

  def verify_str_arg(value, arg=None, valid_values=None, custom_msg=None):
      if not isinstance(value, str):
          if arg is None: msg = "Expected type str, but got type {type}."
          else: msg = "Expected type str for argument {arg}, but got type {type}."
          raise ValueError(msg.format(type=type(value), arg=arg))
      if valid_values is None: return value
      if value not in valid_values:
          if custom_msg is not None: msg = custom_msg
          else:
              msg = "Unknown value '{value}' for argument {arg}. Valid values are {{{valid_values}}}."
              msg = msg.format(value=value, arg=arg, valid_values=iterable_to_str(valid_values))
          raise ValueError(msg)
      return value
  \<close>
\<close>

definition iterable_to_str :: "string list \<Rightarrow> string" where
  "iterable_to_str xs = [CHR 0x27] @ py_join [CHR 0x27, CHR '','', CHR '' '', CHR 0x27] xs @ [CHR 0x27]"

definition arg_repr :: "string option \<Rightarrow> string" where
  "arg_repr arg = (case arg of None \<Rightarrow> ''None'' | Some a \<Rightarrow> a)"

definition verify_str_arg ::
  "pyobj \<Rightarrow> string option \<Rightarrow> string list option \<Rightarrow> string option \<Rightarrow> error + string" where
  "verify_str_arg v arg valid_values custom_msg =
     (case v of
        PStr s \<Rightarrow>
          (case valid_values of
             None \<Rightarrow> Inr s
           | Some vs \<Rightarrow>
               if s \<notin> set vs then
                 Inl (ValueError
                   (case custom_msg of
                      Some m \<Rightarrow> m
                    | None \<Rightarrow> ''Unknown value '' @ [CHR 0x27] @ s @ [CHR 0x27] @ '' for argument ''
                        @ arg_repr arg @ ''. Valid values are {'' @ iterable_to_str vs @ ''}.''))
               else Inr s)
      | _ \<Rightarrow>
          Inl (ValueError
            (case arg of
               None \<Rightarrow> ''Expected type str, but got type '' @ type_repr v @ ''.''
             | Some a \<Rightarrow> ''Expected type str for argument '' @ a @ '', but got type ''
                 @ type_repr v @ ''.'')))"

section \<open>The key-value store, the cache files and the trace of store operations\<close>

text \<open>
  An LMDB environment as the code uses it: \<open>txn.stat()["entries"]\<close>, the keys that
  \<open>txn.cursor().iternext(keys=True, values=False)\<close> yields, and \<open>txn.get\<close>. Nothing relates
  the three: a property that needs \<open>entries\<close> to be the number of cursor keys says so.
\<close>

record lmdb_env =
  entries :: nat
  cursor_keys :: "bytes list"
  txn_get :: "bytes \<Rightarrow> bytes option"

datatype event =
    EnvOpen string
  | Stat string
  | CursorScan string
  | PickleLoad string
  | PickleDump string

text \<open>
  A file at a cache path, as \<open>pickle.load(open(cache_file, "rb"))\<close> finds it: a pickled
  key list, which loads; an empty file, on which \<open>pickle.load\<close> raises \<open>EOFError\<close>; content
  that is not a complete pickle (truncated, or written by something else), on which it
  raises \<open>UnpicklingError\<close>; or a file that \<open>open\<close> cannot read, which raises \<open>OSError\<close>.
  A complete pickle of an object other than a key list is left out: nothing writes one
  to a cache path.
\<close>

datatype artifact = Pickled "bytes list" | EmptyFile | Malformed | Unreadable

text \<open>
  The part of the machine that \<open>LSUNClass.__init__\<close> reads and writes: the stores that
  \<open>lmdb.open\<close> finds (by path), the regular files that \<open>os.path.isfile\<close> finds (by path),
  the paths at which \<open>open(path, "wb")\<close> succeeds, and the operations performed so far,
  oldest first.
\<close>

record world =
  stores :: "string \<rightharpoonup> lmdb_env"
  files :: "string \<rightharpoonup> artifact"
  writable :: "string \<Rightarrow> bool"
  trace :: "event list"

section \<open>\<open>LSUNClass\<close>\<close>

record 'img LSUNClass =
  db_env :: lmdb_env
  db_length :: nat
  db_keys :: "bytes list"
  db_transform :: "('img \<Rightarrow> error + 'img) option"
  db_target_transform :: "(pyobj \<Rightarrow> error + pyobj) option"

definition cache_file_of :: "string \<Rightarrow> string" where
  "cache_file_of root = ''_cache_'' @ filter (\<lambda>c. c \<in> set ascii_letters) root"

text \<open>\<open>LSUNClass.__init__\<close>, lines 22-36.\<close>

definition LSUNClass_init ::
  "world \<Rightarrow> string \<Rightarrow> ('img \<Rightarrow> error + 'img) option \<Rightarrow> (pyobj \<Rightarrow> error + pyobj) option
    \<Rightarrow> error + ('img LSUNClass \<times> world)" where
  "LSUNClass_init w root transform target_transform =
     (case stores w root of
        None \<Rightarrow> Inl LmdbError
      | Some e \<Rightarrow>
          let cache_file = cache_file_of root in
          (case files w cache_file of
             Some (Pickled ks) \<Rightarrow>
               Inr (\<lparr>db_env = e, db_length = entries e, db_keys = ks,
                      db_transform = transform, db_target_transform = target_transform\<rparr>,
                    w\<lparr>trace := trace w @ [EnvOpen root, Stat root, PickleLoad cache_file]\<rparr>)
           | Some EmptyFile \<Rightarrow> Inl EOFError
           | Some Malformed \<Rightarrow> Inl UnpicklingError
           | Some Unreadable \<Rightarrow> Inl OSError
           | None \<Rightarrow>
               if writable w cache_file then
                 Inr (\<lparr>db_env = e, db_length = entries e, db_keys = cursor_keys e,
                        db_transform = transform, db_target_transform = target_transform\<rparr>,
                      w\<lparr>files := (files w)(cache_file \<mapsto> Pickled (cursor_keys e)),
                        trace := trace w @ [EnvOpen root, Stat root, CursorScan root,
                                            PickleDump cache_file]\<rparr>)
               else Inl OSError))"

text \<open>
  \<open>LSUNClass.__getitem__\<close>, lines 38-55. \<open>decode\<close> stands for
  \<open>Image.open(buf).convert("RGB")\<close>; \<open>buf.write(None)\<close> raises \<open>TypeError\<close> when the key
  has no value in the store. A transform that is \<open>None\<close> is skipped, one that is supplied
  is called and may raise.
\<close>

definition LSUNClass_getitem ::
  "(bytes \<Rightarrow> error + 'img) \<Rightarrow> 'img LSUNClass \<Rightarrow> int \<Rightarrow> error + ('img \<times> pyobj)" where
  "LSUNClass_getitem decode db index =
     (case py_index (db_keys db) index of
        Inl e \<Rightarrow> Inl e
      | Inr k \<Rightarrow>
          (case txn_get (db_env db) k of
             None \<Rightarrow> Inl TypeError
           | Some imgbuf \<Rightarrow>
               (case decode imgbuf of
                  Inl e \<Rightarrow> Inl e
                | Inr img0 \<Rightarrow>
                    (case (case db_transform db of
                             None \<Rightarrow> Inr img0 | Some f \<Rightarrow> f img0) of
                       Inl e \<Rightarrow> Inl e
                     | Inr img \<Rightarrow>
                         (case (case db_target_transform db of
                                  None \<Rightarrow> Inr PNone | Some f \<Rightarrow> f PNone) of
                            Inl e \<Rightarrow> Inl e
                          | Inr target \<Rightarrow> Inr (img, target))))))"

definition LSUNClass_len :: "'img LSUNClass \<Rightarrow> nat" where
  "LSUNClass_len db = db_length db"

section \<open>\<open>LSUNCustomDataLoader\<close>\<close>

record 'img LSUNCustomDataLoader =
  classes :: "pyobj list"
  dbs :: "'img LSUNClass list"
  indices :: "int list"
  ds_length :: int
  ds_transform :: "('img \<Rightarrow> error + 'img) option"
  ds_target_transform :: "(pyobj \<Rightarrow> error + pyobj) option"

subsection \<open>\<open>_verify_classes\<close>, lines 100-142\<close>

definition categories :: "string list" where
  "categories = [''sheep'', ''bedroom'', ''bridge'', ''church_outdoor'', ''classroom'',
     ''conference_room'', ''dining_room'', ''kitchen'', ''living_room'', ''restaurant'',
     ''tower'']"

definition dset_opts :: "string list" where
  "dset_opts = [''train'', ''val'', ''test'']"

text \<open>\<open>msg_fmtstr.format(value, what, valid)\<close>, line 135.\<close>

definition msg_fmtstr :: "string \<Rightarrow> string \<Rightarrow> string \<Rightarrow> string" where
  "msg_fmtstr v what valid =
     ''Unknown value '' @ [CHR 0x27] @ v @ [CHR 0x27] @ '' for '' @ what
       @ ''. Valid values are {'' @ valid @ ''}.''"

definition msg_fmtstr_type :: "string \<Rightarrow> string" where
  "msg_fmtstr_type t = ''Expected type str for elements in argument classes, but got type '' @ t @ ''.''"

text \<open>The body of the loop over the elements, lines 131-140.\<close>

definition verify_element :: "pyobj \<Rightarrow> error + unit" where
  "verify_element c =
     (case verify_str_arg c None None (Some (msg_fmtstr_type (type_repr c))) of
        Inl e \<Rightarrow> Inl e
      | Inr s \<Rightarrow>
          let c_short = py_split (CHR ''_'') s;
              category = py_join ''_'' (butlast c_short);
              dset_opt = last c_short
          in
          (case verify_str_arg (PStr category) None (Some categories)
                  (Some (msg_fmtstr category ''LSUN class'' (iterable_to_str categories))) of
             Inl e \<Rightarrow> Inl e
           | Inr _ \<Rightarrow>
               (case verify_str_arg (PStr dset_opt) None (Some dset_opts)
                       (Some (msg_fmtstr dset_opt ''postfix'' (iterable_to_str dset_opts))) of
                  Inl e \<Rightarrow> Inl e
                | Inr _ \<Rightarrow> Inr ())))"

fun verify_elements :: "pyobj list \<Rightarrow> error + unit" where
  "verify_elements [] = Inr ()"
| "verify_elements (c # cs) =
     (case verify_element c of Inl e \<Rightarrow> Inl e | Inr _ \<Rightarrow> verify_elements cs)"

text \<open>\<open>isinstance(classes, Iterable)\<close> and \<open>list(classes)\<close>: a string is an iterable of its
  one-character strings.\<close>

fun py_list :: "pyobj \<Rightarrow> pyobj list option" where
  "py_list (PStr s) = Some (map (\<lambda>ch. PStr [ch]) s)"
| "py_list (PList xs) = Some xs"
| "py_list (PInt _) = None"
| "py_list PNone = None"

definition verify_classes :: "pyobj \<Rightarrow> error + pyobj list" where
  "verify_classes cls =
     (case verify_str_arg cls (Some ''classes'') (Some dset_opts) None of
        Inr s \<Rightarrow>
          if s = ''test'' then Inr [PStr s]
          else Inr (map (\<lambda>c. PStr (c @ ''_'' @ s)) categories)
      | Inl (ValueError _) \<Rightarrow>
          (case py_list cls of
             None \<Rightarrow>
               Inl (ValueError (''Expected type str or Iterable for argument classes, but got type ''
                                 @ type_repr cls @ ''.''))
           | Some cs \<Rightarrow>
               (case verify_elements cs of Inl e \<Rightarrow> Inl e | Inr _ \<Rightarrow> Inr cs))
      | Inl e \<Rightarrow> Inl e)"

subsection \<open>\<open>__init__\<close>, lines 77-98\<close>

text \<open>Lines 88-90: one \<open>LSUNClass(root=root, transform=transform)\<close> per class.\<close>

fun open_dbs ::
  "world \<Rightarrow> string \<Rightarrow> ('img \<Rightarrow> error + 'img) option \<Rightarrow> pyobj list \<Rightarrow> 'img LSUNClass list
    \<Rightarrow> error + ('img LSUNClass list \<times> world)" where
  "open_dbs w root transform [] acc = Inr (acc, w)"
| "open_dbs w root transform (c # cs) acc =
     (case LSUNClass_init w root transform None of
        Inl e \<Rightarrow> Inl e
      | Inr (db, w') \<Rightarrow> open_dbs w' root transform cs (acc @ [db]))"

text \<open>Lines 92-98: the loop that fills \<open>self.indices\<close>; the result is the list and the
  final \<open>count\<close>.\<close>

fun build_indices :: "'img LSUNClass list \<Rightarrow> int list \<Rightarrow> int \<Rightarrow> int list \<times> int" where
  "build_indices [] inds count = (inds, count)"
| "build_indices (db # rest) inds count =
     build_indices rest (inds @ [count + int (LSUNClass_len db)]) (count + int (LSUNClass_len db))"

definition assemble ::
  "pyobj list \<Rightarrow> 'img LSUNClass list \<Rightarrow> ('img \<Rightarrow> error + 'img) option
    \<Rightarrow> (pyobj \<Rightarrow> error + pyobj) option \<Rightarrow> 'img LSUNCustomDataLoader" where
  "assemble cls ds transform target_transform =
     (case build_indices ds [] 0 of
        (inds, count) \<Rightarrow>
          \<lparr>classes = cls, dbs = ds, indices = inds, ds_length = count,
           ds_transform = transform, ds_target_transform = target_transform\<rparr>)"

definition LSUNCustomDataLoader_init ::
  "world \<Rightarrow> string \<Rightarrow> pyobj \<Rightarrow> ('img \<Rightarrow> error + 'img) option \<Rightarrow> (pyobj \<Rightarrow> error + pyobj) option
    \<Rightarrow> error + ('img LSUNCustomDataLoader \<times> world)" where
  "LSUNCustomDataLoader_init w root cls transform target_transform =
     (case verify_classes cls of
        Inl e \<Rightarrow> Inl e
      | Inr cs \<Rightarrow>
          (case open_dbs w root transform cs [] of
             Inl e \<Rightarrow> Inl e
           | Inr (ds, w') \<Rightarrow> Inr (assemble cs ds transform target_transform, w')))"

subsection \<open>\<open>__getitem__\<close> and \<open>__len__\<close>, lines 144-170\<close>

text \<open>The scan of lines 152-158, returning \<open>(target, sub)\<close>.\<close>

fun scan :: "int \<Rightarrow> int list \<Rightarrow> nat \<Rightarrow> int \<Rightarrow> nat \<times> int" where
  "scan index [] target sub = (target, sub)"
| "scan index (ind # inds) target sub =
     (if index < ind then (target, sub) else scan index inds (target + 1) ind)"

text \<open>The store index and the local index that lines 152-161 compute.\<close>

definition resolve :: "int list \<Rightarrow> int \<Rightarrow> nat \<times> int" where
  "resolve inds index = (case scan index inds 0 0 of (target, sub) \<Rightarrow> (target, index - sub))"

definition LSUNCustomDataLoader_getitem ::
  "(bytes \<Rightarrow> error + 'img) \<Rightarrow> 'img LSUNCustomDataLoader \<Rightarrow> int \<Rightarrow> error + ('img \<times> pyobj)" where
  "LSUNCustomDataLoader_getitem decode ds index =
     (case resolve (indices ds) index of
        (target, local) \<Rightarrow>
          if length (dbs ds) \<le> target then Inl IndexError
          else
            (case (case ds_target_transform ds of
                     None \<Rightarrow> Inr (PInt (int target))
                   | Some f \<Rightarrow> f (PInt (int target))) of
               Inl e \<Rightarrow> Inl e
             | Inr label \<Rightarrow>
                 (case LSUNClass_getitem decode (dbs ds ! target) local of
                    Inl e \<Rightarrow> Inl e
                  | Inr (img, _) \<Rightarrow> Inr (img, label))))"

definition LSUNCustomDataLoader_len :: "'img LSUNCustomDataLoader \<Rightarrow> int" where
  "LSUNCustomDataLoader_len ds = ds_length ds"

section \<open>Auxiliary definitions for the proofs\<close>

text \<open>The cumulative sums of a list of lengths, starting after \<open>c\<close>: what
  \<open>build_indices\<close> appends when it starts with \<open>count = c\<close>.\<close>

fun boundaries :: "int \<Rightarrow> nat list \<Rightarrow> int list" where
  "boundaries c [] = []"
| "boundaries c (l # ls) = (c + int l) # boundaries (c + int l) ls"

text \<open>Example stores: every key \<open>k\<close> of the list holds the value \<open>img: k\<close>.\<close>

definition ex_env :: "bytes list \<Rightarrow> lmdb_env" where
  "ex_env ks = \<lparr>entries = length ks, cursor_keys = ks,
                txn_get = (\<lambda>k. if k \<in> set ks then Some (''img:'' @ k) else None)\<rparr>"

definition ex_db :: "bytes list \<Rightarrow> string LSUNClass" where
  "ex_db ks = \<lparr>db_env = ex_env ks, db_length = length ks, db_keys = ks,
               db_transform = None, db_target_transform = None\<rparr>"

definition ex_db3 :: "string LSUNClass" where
  "ex_db3 = ex_db [''a0'', ''a1'', ''a2'']"

definition ex_db5 :: "string LSUNClass" where
  "ex_db5 = ex_db [''b0'', ''b1'', ''b2'', ''b3'', ''b4'']"

text \<open>The paths opened and the paths scanned by cursor, read off a trace.\<close>

fun opened :: "event list \<Rightarrow> string list" where
  "opened [] = []"
| "opened (EnvOpen p # evs) = p # opened evs"
| "opened (_ # evs) = opened evs"


text \<open>Example worlds: one store at \<open>data/sheep\<close> with two entries; without a cache
  file, with a stale cache file holding one key (before and after one open), after one
  open and after two opens. Every path can be written.\<close>

definition ex_world :: world where
  "ex_world = \<lparr>stores = [''data/sheep'' \<mapsto> ex_env [''k0'', ''k1'']], files = Map.empty,
      writable = (\<lambda>p. True), trace = []\<rparr>"

definition ex_stale_world :: world where
  "ex_stale_world = \<lparr>stores = [''data/sheep'' \<mapsto> ex_env [''k0'', ''k1'']],
      files = [''_cache_datasheep'' \<mapsto> Pickled [''k0'']], writable = (\<lambda>p. True), trace = []\<rparr>"

definition ex_stale_world_after :: world where
  "ex_stale_world_after = ex_stale_world\<lparr>trace := [EnvOpen ''data/sheep'', Stat ''data/sheep'',
      PickleLoad ''_cache_datasheep'']\<rparr>"

definition ex_stale_db :: "string LSUNClass" where
  "ex_stale_db = \<lparr>db_env = ex_env [''k0'', ''k1''], db_length = 2, db_keys = [''k0''],
      db_transform = None, db_target_transform = None\<rparr>"

definition ex_stale_dataset :: "string LSUNCustomDataLoader" where
  "ex_stale_dataset = assemble [PStr ''sheep_train''] [ex_stale_db] None None"

definition ex_world_1 :: world where
  "ex_world_1 = ex_world\<lparr>files := [''_cache_datasheep'' \<mapsto> Pickled [''k0'', ''k1'']],
      trace := [EnvOpen ''data/sheep'', Stat ''data/sheep'', CursorScan ''data/sheep'',
                PickleDump ''_cache_datasheep'']\<rparr>"

definition ex_world_after :: world where
  "ex_world_after = ex_world\<lparr>files := [''_cache_datasheep'' \<mapsto> Pickled [''k0'', ''k1'']],
      trace := [EnvOpen ''data/sheep'', Stat ''data/sheep'', CursorScan ''data/sheep'',
                PickleDump ''_cache_datasheep'',
                EnvOpen ''data/sheep'', Stat ''data/sheep'', PickleLoad ''_cache_datasheep'']\<rparr>"

text \<open>An example decoder: the image is its byte string. An example label transform:
  the label \<open>k\<close> becomes \<open>10 * k\<close>.\<close>

definition ex_decode :: "bytes \<Rightarrow> error + string" where
  "ex_decode b = Inr b"

fun ex_label :: "pyobj \<Rightarrow> error + pyobj" where
  "ex_label (PInt k) = Inr (PInt (10 * k))"
| "ex_label v = Inl TypeError"

definition ex_classes :: "pyobj list" where
  "ex_classes = [PStr ''sheep_train'', PStr ''bedroom_val'']"

definition ex_dataset :: "string LSUNCustomDataLoader" where
  "ex_dataset = assemble ex_classes [ex_db [''k0'', ''k1''], ex_db [''k0'', ''k1'']] None None"

definition ex_labelled_dataset :: "string LSUNCustomDataLoader" where
  "ex_labelled_dataset =
     assemble ex_classes [ex_db [''k0'', ''k1''], ex_db [''k0'', ''k1'']] None (Some ex_label)"

text \<open>The two parts into which lines 132-133 cut an element, and the elements that
  pass both membership checks.\<close>

definition category_part :: "string \<Rightarrow> string" where
  "category_part c = py_join ''_'' (butlast (py_split (CHR ''_'') c))"

definition dset_opt_part :: "string \<Rightarrow> string" where
  "dset_opt_part c = last (py_split (CHR ''_'') c)"

definition valid_element :: "string \<Rightarrow> bool" where
  "valid_element c \<longleftrightarrow> category_part c \<in> set categories \<and> dset_opt_part c \<in> set dset_opts"

section \<open>The boundary table and the index scan\<close>

lemma build_indices_boundaries:
  "build_indices ds inds c =
     (inds @ boundaries c (map LSUNClass_len ds), c + int (sum_list (map LSUNClass_len ds)))"
  by (induction ds arbitrary: inds c) simp_all

lemma length_boundaries [simp]: "length (boundaries c ls) = length ls"
  by (induction ls arbitrary: c) simp_all

lemma nth_boundaries:
  "k < length ls \<Longrightarrow> boundaries c ls ! k = c + int (sum_list (take (Suc k) ls))"
proof (induction ls arbitrary: c k)
  case Nil
  then show ?case by simp
next
  case (Cons l ls)
  show ?case
  proof (cases k)
    case 0
    then show ?thesis by simp
  next
    case (Suc j)
    with Cons.prems have "j < length ls" by simp
    from Cons.IH [OF this, of "c + int l"] Suc show ?thesis by simp
  qed
qed

lemma last_boundaries:
  "ls \<noteq> [] \<Longrightarrow> last (boundaries c ls) = c + int (sum_list ls)"
proof -
  assume ne: "ls \<noteq> []"
  then have "length ls - 1 < length ls" by (cases ls) simp_all
  moreover from ne have "boundaries c ls \<noteq> []" by (cases ls) simp_all
  ultimately show ?thesis
    using nth_boundaries [of "length ls - 1" ls c] ne by (simp add: last_conv_nth)
qed

lemma scan_inside:
  "c \<le> i \<Longrightarrow> i < c + int (sum_list ls) \<Longrightarrow>
     \<exists>k. k < length ls \<and> scan i (boundaries c ls) t c = (t + k, c + int (sum_list (take k ls)))
       \<and> c + int (sum_list (take k ls)) \<le> i \<and> i < c + int (sum_list (take (Suc k) ls))"
proof (induction ls arbitrary: c t)
  case Nil
  then show ?case by simp
next
  case (Cons l ls)
  show ?case
  proof (cases "i < c + int l")
    case True
    with Cons.prems have "scan i (boundaries c (l # ls)) t c = (t + 0, c + int (sum_list (take 0 (l # ls))))
       \<and> c + int (sum_list (take 0 (l # ls))) \<le> i \<and> i < c + int (sum_list (take (Suc 0) (l # ls)))"
      by simp
    then show ?thesis by blast
  next
    case False
    with Cons.prems have "c + int l \<le> i" "i < (c + int l) + int (sum_list ls)" by simp_all
    from Cons.IH [OF this, of "Suc t"] obtain k where
      k: "k < length ls"
         "scan i (boundaries (c + int l) ls) (Suc t) (c + int l) = (Suc t + k, c + int l + int (sum_list (take k ls)))"
         "c + int l + int (sum_list (take k ls)) \<le> i"
         "i < c + int l + int (sum_list (take (Suc k) ls))"
      by blast
    with False have "Suc k < length (l # ls) \<and>
        scan i (boundaries c (l # ls)) t c = (t + Suc k, c + int (sum_list (take (Suc k) (l # ls))))
       \<and> c + int (sum_list (take (Suc k) (l # ls))) \<le> i \<and> i < c + int (sum_list (take (Suc (Suc k)) (l # ls)))"
      by simp
    then show ?thesis by blast
  qed
qed

lemma scan_beyond:
  "c + int (sum_list ls) \<le> i \<Longrightarrow> fst (scan i (boundaries c ls) t s) = t + length ls"
proof (induction ls arbitrary: c t s)
  case Nil
  then show ?case by simp
next
  case (Cons l ls)
  then have "\<not> i < c + int l" "c + int l + int (sum_list ls) \<le> i" by simp_all
  with Cons.IH [of "c + int l" "Suc t" "c + int l"] show ?case by simp
qed

lemma sum_take_mono:
  "j \<le> k \<Longrightarrow> sum_list (take j ls) \<le> sum_list (take k (ls :: nat list))"
proof (induction ls arbitrary: j k)
  case Nil
  then show ?case by simp
next
  case (Cons l ls)
  then show ?case by (cases j; cases k) simp_all
qed

lemma sum_take_Suc:
  "k < length ls \<Longrightarrow> sum_list (take (Suc k) ls) = sum_list (take k ls) + (ls ! k :: nat)"
  by (simp add: take_Suc_conv_app_nth)

lemma sum_take_le: "sum_list (take k ls) \<le> sum_list (ls :: nat list)"
  using sum_take_mono [of k "length ls" ls] by (cases "k \<le> length ls") simp_all

lemma indices_assemble:
  "indices (assemble cls ds tr tt) = boundaries 0 (map LSUNClass_len ds)"
  by (simp add: assemble_def build_indices_boundaries)

lemma len_assemble:
  "LSUNCustomDataLoader_len (assemble cls ds tr tt) = int (sum_list (map LSUNClass_len ds))"
  by (simp add: assemble_def build_indices_boundaries LSUNCustomDataLoader_len_def)

lemma dbs_assemble: "dbs (assemble cls ds tr tt) = ds"
  by (simp add: assemble_def build_indices_boundaries)

lemma prev_boundary:
  "0 < k \<Longrightarrow> k \<le> length ls \<Longrightarrow>
     boundaries c ls ! (k - Suc 0) = c + int (sum_list (take k ls))"
  using nth_boundaries [of "k - 1" ls c] by (cases k) simp_all

lemma resolve_inside:
  assumes "0 \<le> i" "i < int (sum_list ls)"
  shows "\<exists>k. k < length ls \<and> resolve (boundaries 0 ls) i = (k, i - int (sum_list (take k ls)))
          \<and> int (sum_list (take k ls)) \<le> i \<and> i < int (sum_list (take (Suc k) ls))"
  using scan_inside [of 0 i ls 0] assms by (auto simp: resolve_def)

lemma block_unique:
  assumes "int (sum_list (take k ls)) \<le> i" "i < int (sum_list (take (Suc k) ls))"
      and "int (sum_list (take k' ls)) \<le> i" "i < int (sum_list (take (Suc k') ls))"
  shows "k = k'"
proof (rule ccontr)
  assume "k \<noteq> k'"
  then consider "Suc k \<le> k'" | "Suc k' \<le> k" by linarith
  then show False
  proof cases
    case 1
    from sum_take_mono [OF this, of ls] assms show False by linarith
  next
    case 2
    from sum_take_mono [OF this, of ls] assms show False by linarith
  qed
qed

lemma resolve_block:
  assumes k: "k < length ls" and j: "0 \<le> j" "j < int (ls ! k)"
  shows "resolve (boundaries 0 ls) (int (sum_list (take k ls)) + j) = (k, j)"
proof -
  let ?i = "int (sum_list (take k ls)) + j"
  have up: "?i < int (sum_list (take (Suc k) ls))"
    using j k by (simp add: sum_take_Suc)
  also have "\<dots> \<le> int (sum_list ls)" using sum_take_le [of "Suc k" ls] by simp
  finally have lt: "?i < int (sum_list ls)" .
  have ge: "0 \<le> ?i" using j by simp
  from resolve_inside [OF ge lt] obtain k' where
    k': "resolve (boundaries 0 ls) ?i = (k', ?i - int (sum_list (take k' ls)))"
        "int (sum_list (take k' ls)) \<le> ?i" "?i < int (sum_list (take (Suc k') ls))"
    by blast
  have "k = k'"
    by (rule block_unique [of k ls ?i k']) (use j up k' in simp_all)
  with k' show ?thesis by simp
qed

lemma resolve_bij:
  "bij_betw (resolve (boundaries 0 ls)) {0..<int (sum_list ls)}
     (SIGMA k:{..<length ls}. {0..<int (ls ! k)})"
proof (rule bij_betwI')
  fix x y assume "x \<in> {0..<int (sum_list ls)}" "y \<in> {0..<int (sum_list ls)}"
  then have x: "0 \<le> x" "x < int (sum_list ls)" and y: "0 \<le> y" "y < int (sum_list ls)" by simp_all
  from resolve_inside [OF x] obtain k where
    k: "resolve (boundaries 0 ls) x = (k, x - int (sum_list (take k ls)))" by blast
  from resolve_inside [OF y] obtain k' where
    k': "resolve (boundaries 0 ls) y = (k', y - int (sum_list (take k' ls)))" by blast
  show "(resolve (boundaries 0 ls) x = resolve (boundaries 0 ls) y) = (x = y)"
  proof
    assume "resolve (boundaries 0 ls) x = resolve (boundaries 0 ls) y"
    then have "(k, x - int (sum_list (take k ls))) = (k', y - int (sum_list (take k' ls)))"
      unfolding k k' .
    then show "x = y" by (elim Pair_inject) simp
  qed simp
next
  fix x assume "x \<in> {0..<int (sum_list ls)}"
  then have x: "0 \<le> x" "x < int (sum_list ls)" by simp_all
  from resolve_inside [OF x] obtain k where
    k: "k < length ls" "resolve (boundaries 0 ls) x = (k, x - int (sum_list (take k ls)))"
       "int (sum_list (take k ls)) \<le> x" "x < int (sum_list (take (Suc k) ls))" by blast
  then show "resolve (boundaries 0 ls) x \<in> (SIGMA k:{..<length ls}. {0..<int (ls ! k)})"
    by (simp add: sum_take_Suc)
next
  fix p assume "p \<in> (SIGMA k:{..<length ls}. {0..<int (ls ! k)})"
  then obtain k j where p: "p = (k, j)" "k < length ls" "0 \<le> j" "j < int (ls ! k)"
    by auto
  let ?i = "int (sum_list (take k ls)) + j"
  have "?i < int (sum_list (take (Suc k) ls))" using p by (simp add: sum_take_Suc)
  also have "\<dots> \<le> int (sum_list ls)" using sum_take_le [of "Suc k" ls] by simp
  finally have "?i \<in> {0..<int (sum_list ls)}" using p by simp
  moreover have "p = resolve (boundaries 0 ls) ?i"
    using resolve_block [OF p(2,3,4)] p(1) by simp
  ultimately show "\<exists>x\<in>{0..<int (sum_list ls)}. p = resolve (boundaries 0 ls) x" by blast
qed

text \<open>
  Claim C4. For a dataset assembled from any list of stores, the boundary table has one
  entry per store, the difference of entry \<open>k\<close> and entry \<open>k - 1\<close> (entry \<open>0\<close> itself for
  \<open>k = 0\<close>) is the length of store \<open>k\<close>, the last entry is the sum of all store lengths,
  and \<open>__len__\<close> returns that last entry (the sum, also when there is no store).
\<close>

theorem boundary_table:
  "LSUNCustomDataLoader_len (assemble cls ds tr tt) = int (sum_list (map LSUNClass_len ds))
   \<and> length (indices (assemble cls ds tr tt)) = length ds
   \<and> (k < length ds \<longrightarrow>
        indices (assemble cls ds tr tt) ! k
          - (if k = 0 then 0 else indices (assemble cls ds tr tt) ! (k - 1))
          = int (LSUNClass_len (ds ! k))
      \<and> last (indices (assemble cls ds tr tt)) = int (sum_list (map LSUNClass_len ds))
      \<and> LSUNCustomDataLoader_len (assemble cls ds tr tt) = last (indices (assemble cls ds tr tt)))"
proof (intro conjI impI)
  show "LSUNCustomDataLoader_len (assemble cls ds tr tt) = int (sum_list (map LSUNClass_len ds))"
    by (rule len_assemble)
  show "length (indices (assemble cls ds tr tt)) = length ds"
    by (simp add: indices_assemble)
next
  let ?ls = "map LSUNClass_len ds"
  assume k: "k < length ds"
  then have k': "k < length ?ls" and ne: "?ls \<noteq> []" by auto
  from nth_boundaries [OF k', of 0] k
  show "indices (assemble cls ds tr tt) ! k
          - (if k = 0 then 0 else indices (assemble cls ds tr tt) ! (k - 1))
          = int (LSUNClass_len (ds ! k))"
    by (simp add: indices_assemble sum_take_Suc prev_boundary)
  from last_boundaries [OF ne, of 0]
  show l: "last (indices (assemble cls ds tr tt)) = int (sum_list (map LSUNClass_len ds))"
    by (simp add: indices_assemble)
  show "LSUNCustomDataLoader_len (assemble cls ds tr tt) = last (indices (assemble cls ds tr tt))"
    by (simp add: l len_assemble)
qed

theorem boundary_table_witness:
  "(1::nat) < length [ex_db3, ex_db5]
   \<and> indices (assemble [] [ex_db3, ex_db5] None None) = [3, 8]
   \<and> indices (assemble [] [ex_db3, ex_db5] None None) ! 1
        - indices (assemble [] [ex_db3, ex_db5] None None) ! 0 = int (LSUNClass_len ex_db5)
   \<and> last (indices (assemble [] [ex_db3, ex_db5] None None)) = 8
   \<and> LSUNCustomDataLoader_len (assemble [] [ex_db3, ex_db5] None None) = 8"
  using boundary_table [of "[]" "[ex_db3, ex_db5]" None None 1]
  by (simp add: assemble_def LSUNClass_len_def LSUNCustomDataLoader_len_def ex_db3_def ex_db5_def
      ex_db_def)

text \<open>
  Claim C1. For a dataset assembled from any list of stores and a global index \<open>i\<close> in
  \<open>[0, total_length)\<close>, the scan of \<open>__getitem__\<close> yields a store index \<open>k\<close> and a local
  index \<open>j\<close> with \<open>0 \<le> j < len(store k)\<close> and \<open>j = i -\<close> the previous boundary (\<open>0\<close> for
  store \<open>0\<close>); as a function of \<open>i\<close> it is a bijection from \<open>[0, total_length)\<close> onto the
  disjoint union of the stores' local index ranges.
\<close>

theorem resolve_bijection:
  "(0 \<le> i \<and> i < LSUNCustomDataLoader_len (assemble cls ds tr tt) \<longrightarrow>
      (\<exists>k j. resolve (indices (assemble cls ds tr tt)) i = (k, j)
         \<and> k < length ds \<and> 0 \<le> j \<and> j < int (LSUNClass_len (ds ! k))
         \<and> j = i - (if k = 0 then 0 else indices (assemble cls ds tr tt) ! (k - 1))))
   \<and> bij_betw (resolve (indices (assemble cls ds tr tt)))
        {0..<LSUNCustomDataLoader_len (assemble cls ds tr tt)}
        (SIGMA k:{..<length ds}. {0..<int (LSUNClass_len (ds ! k))})"
proof (intro conjI impI)
  let ?ls = "map LSUNClass_len ds"
  assume "0 \<le> i \<and> i < LSUNCustomDataLoader_len (assemble cls ds tr tt)"
  then have i: "0 \<le> i" "i < int (sum_list ?ls)" by (simp_all add: len_assemble)
  from resolve_inside [OF i] obtain k where
    k: "k < length ?ls" "resolve (boundaries 0 ?ls) i = (k, i - int (sum_list (take k ?ls)))"
       "int (sum_list (take k ?ls)) \<le> i" "i < int (sum_list (take (Suc k) ?ls))" by blast
  from k(1,4) have "i - int (sum_list (take k ?ls)) < int (LSUNClass_len (ds ! k))"
    by (simp add: sum_take_Suc)
  with k
  show "\<exists>k j. resolve (indices (assemble cls ds tr tt)) i = (k, j)
         \<and> k < length ds \<and> 0 \<le> j \<and> j < int (LSUNClass_len (ds ! k))
         \<and> j = i - (if k = 0 then 0 else indices (assemble cls ds tr tt) ! (k - 1))"
    by (simp add: indices_assemble prev_boundary)
next
  have "(SIGMA k:{..<length ds}. {0..<int (LSUNClass_len (ds ! k))})
      = (SIGMA k:{..<length (map LSUNClass_len ds)}. {0..<int (map LSUNClass_len ds ! k)})"
    by (rule Sigma_cong) simp_all
  with resolve_bij [of "map LSUNClass_len ds"]
  show "bij_betw (resolve (indices (assemble cls ds tr tt)))
        {0..<LSUNCustomDataLoader_len (assemble cls ds tr tt)}
        (SIGMA k:{..<length ds}. {0..<int (LSUNClass_len (ds ! k))})"
    by (simp add: indices_assemble len_assemble)
qed

theorem resolve_bijection_witness:
  "(0::int) \<le> 7 \<and> 7 < LSUNCustomDataLoader_len (assemble [] [ex_db3, ex_db5] None None)
   \<and> resolve (indices (assemble [] [ex_db3, ex_db5] None None)) 7 = (1, 4)
   \<and> 4 < int (LSUNClass_len ([ex_db3, ex_db5] ! 1))
   \<and> bij_betw (resolve (indices (assemble [] [ex_db3, ex_db5] None None)))
        {0..<LSUNCustomDataLoader_len (assemble [] [ex_db3, ex_db5] None None)}
        (SIGMA k:{..<length [ex_db3, ex_db5]}. {0..<int (LSUNClass_len ([ex_db3, ex_db5] ! k))})"
  using resolve_bijection [of 7 "[]" "[ex_db3, ex_db5]" None None]
  by (simp add: assemble_def LSUNClass_len_def LSUNCustomDataLoader_len_def ex_db3_def ex_db5_def
      ex_db_def resolve_def)

section \<open>Class resolution\<close>

text \<open>
  Claim C5. The string \<open>train\<close> resolves to every category of the vocabulary suffixed
  with \<open>_train\<close>, in vocabulary order, \<open>val\<close> likewise with \<open>_val\<close>; the result has as many
  entries as the vocabulary (eleven); the string \<open>test\<close> resolves to the one-element list
  \<open>[test]\<close>.
\<close>

theorem verify_classes_split_names:
  "verify_classes (PStr ''train'') = Inr (map (\<lambda>c. PStr (c @ ''_train'')) categories)
   \<and> verify_classes (PStr ''val'') = Inr (map (\<lambda>c. PStr (c @ ''_val'')) categories)
   \<and> length (map (\<lambda>c. PStr (c @ ''_train'')) categories) = length categories
   \<and> length (map (\<lambda>c. PStr (c @ ''_val'')) categories) = length categories
   \<and> length categories = 11
   \<and> verify_classes (PStr ''test'') = Inr [PStr ''test'']"
  by (simp add: verify_classes_def verify_str_arg_def dset_opts_def categories_def)

section \<open>Opening a store: the key list and its cache\<close>

lemma LSUNClass_init_hit:
  "stores w root = Some e \<Longrightarrow> files w (cache_file_of root) = Some (Pickled ks) \<Longrightarrow>
     LSUNClass_init w root tr tt =
       Inr (\<lparr>db_env = e, db_length = entries e, db_keys = ks,
              db_transform = tr, db_target_transform = tt\<rparr>,
            w\<lparr>trace := trace w @ [EnvOpen root, Stat root, PickleLoad (cache_file_of root)]\<rparr>)"
  by (simp add: LSUNClass_init_def Let_def)

lemma LSUNClass_init_miss:
  "stores w root = Some e \<Longrightarrow> files w (cache_file_of root) = None \<Longrightarrow>
     writable w (cache_file_of root) \<Longrightarrow>
     LSUNClass_init w root tr tt =
       Inr (\<lparr>db_env = e, db_length = entries e, db_keys = cursor_keys e,
              db_transform = tr, db_target_transform = tt\<rparr>,
            w\<lparr>files := (files w)(cache_file_of root \<mapsto> Pickled (cursor_keys e)),
              trace := trace w @ [EnvOpen root, Stat root, CursorScan root,
                                  PickleDump (cache_file_of root)]\<rparr>)"
  by (simp add: LSUNClass_init_def Let_def)


lemma LSUNClass_init_InrE:
  assumes "LSUNClass_init w root tr tt = Inr (db, w')"
  obtains e ks where "stores w root = Some e"
      "files w (cache_file_of root) = Some (Pickled ks)"
    | e where "stores w root = Some e" "files w (cache_file_of root) = None"
      "writable w (cache_file_of root)"
proof (cases "stores w root")
  case None
  with assms show ?thesis by (simp add: LSUNClass_init_def Let_def)
next
  case (Some e)
  show ?thesis
  proof (cases "files w (cache_file_of root)")
    case None
    with Some assms have "writable w (cache_file_of root)"
      by (simp add: LSUNClass_init_def Let_def split: if_splits)
    with Some None that(2) show ?thesis by blast
  next
    case f: (Some a)
    with Some assms obtain ks where "a = Pickled ks"
      by (cases a) (simp_all add: LSUNClass_init_def Let_def)
    with Some f that(1) show ?thesis by blast
  qed
qed

lemma cache_file_ex: "cache_file_of ''data/sheep'' = ''_cache_datasheep''"
  by (simp add: cache_file_of_def ascii_letters_def)

lemma ex_world_facts:
  "stores ex_world ''data/sheep'' = Some (ex_env [''k0'', ''k1''])"
  "files ex_world (cache_file_of ''data/sheep'') = None"
  "writable ex_world (cache_file_of ''data/sheep'')"
  by (simp_all add: ex_world_def)

lemma ex_world_1_facts:
  "stores ex_world_1 ''data/sheep'' = Some (ex_env [''k0'', ''k1''])"
  "files ex_world_1 (cache_file_of ''data/sheep'') = Some (Pickled [''k0'', ''k1''])"
  by (simp_all add: ex_world_1_def ex_world_def cache_file_ex)

lemma ex_stale_world_facts:
  "stores ex_stale_world ''data/sheep'' = Some (ex_env [''k0'', ''k1''])"
  "files ex_stale_world (cache_file_of ''data/sheep'') = Some (Pickled [''k0''])"
  by (simp_all add: ex_stale_world_def cache_file_ex)

lemma ex_init_1:
  "LSUNClass_init ex_world ''data/sheep'' None None = Inr (ex_db [''k0'', ''k1''], ex_world_1)"
  unfolding LSUNClass_init_miss [OF ex_world_facts]
  by (simp add: cache_file_ex ex_world_def ex_world_1_def ex_db_def ex_env_def)

lemma ex_init_2:
  "LSUNClass_init ex_world_1 ''data/sheep'' None None
     = Inr (ex_db [''k0'', ''k1''], ex_world_after)"
  unfolding LSUNClass_init_hit [OF ex_world_1_facts]
  by (simp add: cache_file_ex ex_world_def ex_world_1_def ex_world_after_def ex_db_def
      ex_env_def)

lemma ex_stale_init:
  "LSUNClass_init ex_stale_world ''data/sheep'' None None
     = Inr (ex_stale_db, ex_stale_world_after)"
  unfolding LSUNClass_init_hit [OF ex_stale_world_facts]
  by (simp add: cache_file_ex ex_stale_world_def ex_stale_world_after_def ex_stale_db_def
      ex_env_def)

text \<open>
  Claim C3, as stated, fails: \<open>__init__\<close> never compares the reported entry count with the
  key list. With a cache file that holds one key and a store that reports two entries,
  the open returns with length \<open>2\<close> and a key list of length \<open>1\<close>.
\<close>

theorem init_count_mismatch_counterexample:
  "LSUNClass_init ex_stale_world ''data/sheep'' None None
     = Inr (ex_stale_db, ex_stale_world_after)
   \<and> LSUNClass_len ex_stale_db = 2 \<and> length (db_keys ex_stale_db) = 1"
  by (simp add: ex_stale_init) (simp add: LSUNClass_len_def ex_stale_db_def)

text \<open>
  Claim C3, amended. When the open of a store returns, the length is the entry count the
  store reports, and the key list is the list pickled in the cache file when a cache file
  exists and the cursor enumeration of the store when none exists. The count and the key
  list are not compared: when the store opens and the cache file holds a pickled key list,
  the open returns with the reported count and that list, whatever the two lengths are. The count equals
  the length of the key list when no cache file exists and the store reports as many
  entries as its cursor yields keys.
\<close>

theorem init_count_and_keys:
  "(LSUNClass_init w root tr tt = Inr (db, w') \<longrightarrow>
      (\<exists>st. stores w root = Some st \<and> LSUNClass_len db = entries st
         \<and> (files w (cache_file_of root) = Some (Pickled (db_keys db))
              \<or> files w (cache_file_of root) = None \<and> db_keys db = cursor_keys st)
         \<and> (files w (cache_file_of root) = None \<and> entries st = length (cursor_keys st)
               \<longrightarrow> LSUNClass_len db = length (db_keys db))))
   \<and> (stores w root = Some e \<and> files w (cache_file_of root) = Some (Pickled ks) \<longrightarrow>
        (\<exists>d v. LSUNClass_init w root tr tt = Inr (d, v)
           \<and> LSUNClass_len d = entries e \<and> db_keys d = ks))"
proof (intro conjI impI)
  assume a: "LSUNClass_init w root tr tt = Inr (db, w')"
  then show "\<exists>st. stores w root = Some st \<and> LSUNClass_len db = entries st
         \<and> (files w (cache_file_of root) = Some (Pickled (db_keys db))
              \<or> files w (cache_file_of root) = None \<and> db_keys db = cursor_keys st)
         \<and> (files w (cache_file_of root) = None \<and> entries st = length (cursor_keys st)
               \<longrightarrow> LSUNClass_len db = length (db_keys db))"
  proof (cases rule: LSUNClass_init_InrE)
    case (1 st ks)
    from a LSUNClass_init_hit [OF 1, of tr tt]
    have "LSUNClass_len db = entries st" "db_keys db = ks"
      by (auto simp: LSUNClass_len_def)
    with 1 show ?thesis by simp
  next
    case (2 st)
    from a LSUNClass_init_miss [OF 2, of tr tt]
    have "LSUNClass_len db = entries st" "db_keys db = cursor_keys st"
      by (auto simp: LSUNClass_len_def)
    with 2 show ?thesis by simp
  qed
next
  assume "stores w root = Some e \<and> files w (cache_file_of root) = Some (Pickled ks)"
  then have h: "stores w root = Some e" "files w (cache_file_of root) = Some (Pickled ks)"
    by simp_all
  show "\<exists>d v. LSUNClass_init w root tr tt = Inr (d, v)
           \<and> LSUNClass_len d = entries e \<and> db_keys d = ks"
    unfolding LSUNClass_init_hit [OF h] by (simp add: LSUNClass_len_def)
qed

theorem init_count_and_keys_witness:
  "LSUNClass_init ex_world ''data/sheep'' None None = Inr (ex_db [''k0'', ''k1''], ex_world_1)
   \<and> stores ex_world ''data/sheep'' = Some (ex_env [''k0'', ''k1''])
   \<and> files ex_world (cache_file_of ''data/sheep'') = None
   \<and> entries (ex_env [''k0'', ''k1'']) = length (cursor_keys (ex_env [''k0'', ''k1'']))
   \<and> db_keys (ex_db [''k0'', ''k1'']) = cursor_keys (ex_env [''k0'', ''k1''])
   \<and> LSUNClass_len (ex_db [''k0'', ''k1'']) = length (db_keys (ex_db [''k0'', ''k1'']))
   \<and> stores ex_stale_world ''data/sheep'' = Some (ex_env [''k0'', ''k1''])
   \<and> files ex_stale_world (cache_file_of ''data/sheep'') = Some (Pickled [''k0''])
   \<and> LSUNClass_init ex_stale_world ''data/sheep'' None None
        = Inr (ex_stale_db, ex_stale_world_after)
   \<and> LSUNClass_len ex_stale_db = entries (ex_env [''k0'', ''k1''])
   \<and> db_keys ex_stale_db = [''k0'']"
proof -
  note s = ex_world_facts(1) and f = ex_world_facts(2)
  have n: "entries (ex_env [''k0'', ''k1'']) = length (cursor_keys (ex_env [''k0'', ''k1'']))"
    by (simp add: ex_env_def)
  note s' = ex_stale_world_facts(1) and f' = ex_stale_world_facts(2)
  note inst = init_count_and_keys [of ex_world "''data/sheep''" None None
      "ex_db [''k0'', ''k1'']" ex_world_1 "ex_env [''k0'', ''k1'']" "[]"]
  from inst ex_init_1 obtain st where
    st: "stores ex_world ''data/sheep'' = Some st"
    and alt: "files ex_world (cache_file_of ''data/sheep'')
                = Some (Pickled (db_keys (ex_db [''k0'', ''k1''])))
              \<or> files ex_world (cache_file_of ''data/sheep'') = None
                \<and> db_keys (ex_db [''k0'', ''k1'']) = cursor_keys st"
    and eq: "files ex_world (cache_file_of ''data/sheep'') = None
              \<and> entries st = length (cursor_keys st)
             \<longrightarrow> LSUNClass_len (ex_db [''k0'', ''k1'']) = length (db_keys (ex_db [''k0'', ''k1'']))"
    by blast
  from st have st_eq: "st = ex_env [''k0'', ''k1'']" unfolding s by simp
  from alt have a: "db_keys (ex_db [''k0'', ''k1'']) = cursor_keys (ex_env [''k0'', ''k1''])"
    unfolding f st_eq by simp
  from eq f n have b: "LSUNClass_len (ex_db [''k0'', ''k1'']) = length (db_keys (ex_db [''k0'', ''k1'']))"
    unfolding st_eq by blast
  note inst' = init_count_and_keys [of ex_stale_world "''data/sheep''"
      "None :: (string \<Rightarrow> error + string) option" None
      ex_stale_db ex_stale_world_after "ex_env [''k0'', ''k1'']" "[''k0'']"]
  from inst' s' f' obtain d v where
    dv: "LSUNClass_init ex_stale_world ''data/sheep''
           (None :: (string \<Rightarrow> error + string) option) None = Inr (d, v)"
        "LSUNClass_len d = entries (ex_env [''k0'', ''k1''])" "db_keys d = [''k0'']"
    by blast
  from dv(1) have "d = ex_stale_db" unfolding ex_stale_init by simp
  with dv have c: "LSUNClass_len ex_stale_db = entries (ex_env [''k0'', ''k1''])"
    and d: "db_keys ex_stale_db = [''k0'']"
    by simp_all
  from ex_init_1 s f n a b s' f' ex_stale_init c d show ?thesis by blast
qed



lemma LSUNClass_init_Inr:
  assumes "LSUNClass_init w root tr tt = Inr (db, w')"
  shows "stores w' = stores w"
    and "\<exists>e. stores w root = Some e \<and> db_env db = e \<and> LSUNClass_len db = entries e"
    and "\<exists>evs. trace w' = trace w @ evs \<and> opened evs = [root]"
proof -
  from assms have "stores w' = stores w
    \<and> (\<exists>e. stores w root = Some e \<and> db_env db = e \<and> LSUNClass_len db = entries e)
    \<and> (\<exists>evs. trace w' = trace w @ evs \<and> opened evs = [root])"
  proof (cases rule: LSUNClass_init_InrE)
    case (1 e ks)
    from assms LSUNClass_init_hit [OF 1, of tr tt] 1(1) show ?thesis
      by (auto simp: LSUNClass_len_def)
  next
    case (2 e)
    from assms LSUNClass_init_miss [OF 2, of tr tt] 2(1) show ?thesis
      by (auto simp: LSUNClass_len_def)
  qed
  then show "stores w' = stores w"
    and "\<exists>e. stores w root = Some e \<and> db_env db = e \<and> LSUNClass_len db = entries e"
    and "\<exists>evs. trace w' = trace w @ evs \<and> opened evs = [root]"
    by blast+
qed

section \<open>Construction of the dataset\<close>

lemma open_dbs_Inr:
  "open_dbs w root tr cs acc = Inr (ds, w') \<Longrightarrow>
     stores w' = stores w \<and>
     (\<exists>new. ds = acc @ new \<and> length new = length cs
        \<and> (\<forall>db\<in>set new. \<exists>e. stores w root = Some e \<and> db_env db = e \<and> LSUNClass_len db = entries e))
     \<and> (\<exists>evs. trace w' = trace w @ evs \<and> opened evs = replicate (length cs) root)"
proof (induction cs arbitrary: w acc)
  case Nil
  then show ?case by simp
next
  case (Cons c cs)
  from Cons.prems obtain db w1 where
    i: "LSUNClass_init w root tr None = Inr (db, w1)"
    and r: "open_dbs w1 root tr cs (acc @ [db]) = Inr (ds, w')"
    by (auto split: sum.splits)
  note f = LSUNClass_init_Inr [OF i]
  from Cons.IH [OF r] obtain new evs where
    n: "stores w' = stores w1" "ds = (acc @ [db]) @ new" "length new = length cs"
       "\<forall>db\<in>set new. \<exists>e. stores w1 root = Some e \<and> db_env db = e \<and> LSUNClass_len db = entries e"
       "trace w' = trace w1 @ evs" "opened evs = replicate (length cs) root"
    by blast
  from f(3) obtain evs0 where e0: "trace w1 = trace w @ evs0" "opened evs0 = [root]" by blast
  have op: "opened (xs @ ys) = opened xs @ opened ys" for xs ys
    by (induction xs rule: opened.induct) simp_all
  have "ds = acc @ (db # new) \<and> length (db # new) = length (c # cs)
        \<and> (\<forall>d\<in>set (db # new). \<exists>e. stores w root = Some e \<and> db_env d = e \<and> LSUNClass_len d = entries e)"
    using n f by auto
  moreover have "trace w' = trace w @ (evs0 @ evs) \<and> opened (evs0 @ evs) = replicate (length (c # cs)) root"
    using n e0 by (simp add: op)
  moreover have "stores w' = stores w" using n f by simp
  ultimately show ?case by blast
qed

lemma verify_element_sheep_train: "verify_element (PStr ''sheep_train'') = Inr ()"
  by (simp add: verify_element_def verify_str_arg_def categories_def dset_opts_def)

lemma verify_element_bedroom_val: "verify_element (PStr ''bedroom_val'') = Inr ()"
  by (simp add: verify_element_def verify_str_arg_def categories_def dset_opts_def)

lemma verify_classes_ex: "verify_classes (PList ex_classes) = Inr ex_classes"
  by (simp add: verify_classes_def verify_str_arg_def ex_classes_def
      verify_element_sheep_train verify_element_bedroom_val)

lemma ex_init_any:
  "LSUNCustomDataLoader_init ex_world ''data/sheep'' (PList ex_classes) None tt
     = Inr (assemble ex_classes [ex_db [''k0'', ''k1''], ex_db [''k0'', ''k1'']] None tt,
            ex_world_after)"
  unfolding LSUNCustomDataLoader_init_def verify_classes_ex
  by (simp add: ex_classes_def ex_init_1 ex_init_2)

lemma ex_init:
  "LSUNCustomDataLoader_init ex_world ''data/sheep'' (PList ex_classes) None None
     = Inr (ex_dataset, ex_world_after)"
  unfolding ex_dataset_def by (rule ex_init_any)

lemma ex_labelled_init:
  "LSUNCustomDataLoader_init ex_world ''data/sheep'' (PList ex_classes) None (Some ex_label)
     = Inr (ex_labelled_dataset, ex_world_after)"
  unfolding ex_labelled_dataset_def by (rule ex_init_any)

lemma verify_classes_sheep:
  "verify_classes (PList [PStr ''sheep_train'']) = Inr [PStr ''sheep_train'']"
  by (simp add: verify_classes_def verify_str_arg_def verify_element_sheep_train)

lemma ex_stale_dataset_init:
  "LSUNCustomDataLoader_init ex_stale_world ''data/sheep'' (PList [PStr ''sheep_train''])
       None None = Inr (ex_stale_dataset, ex_stale_world_after)"
  unfolding LSUNCustomDataLoader_init_def verify_classes_sheep
  by (simp add: ex_stale_init ex_stale_dataset_def)

lemma classes_assemble: "classes (assemble cls ds tr tt) = cls"
  by (simp add: assemble_def build_indices_boundaries)

lemma sum_list_const:
  "(\<forall>x\<in>set xs. f x = (c::nat)) \<Longrightarrow> sum_list (map f xs) = length xs * c"
  by (induction xs) simp_all

text \<open>
  Claim C9. When the construction succeeds with \<open>n\<close> resolved classes, there are \<open>n\<close>
  stores, each opened at the one \<open>root\<close> argument (the trace shows \<open>n\<close> opens, all of
  \<open>root\<close>), so all have the length the store at \<open>root\<close> reports, and the total length is
  \<open>n\<close> times that entry count.
\<close>

theorem all_stores_at_root:
  "LSUNCustomDataLoader_init w root cls tr tt = Inr (D, w') \<Longrightarrow>
     length (dbs D) = length (classes D)
     \<and> (\<forall>db\<in>set (dbs D). \<exists>e. stores w root = Some e \<and> db_env db = e
            \<and> LSUNClass_len db = entries e)
     \<and> opened (drop (length (trace w)) (trace w')) = replicate (length (classes D)) root
     \<and> (\<forall>a\<in>set (dbs D). \<forall>b\<in>set (dbs D). LSUNClass_len a = LSUNClass_len b)
     \<and> (\<forall>e. stores w root = Some e \<longrightarrow>
            LSUNCustomDataLoader_len D = int (length (classes D)) * int (entries e))"
proof -
  assume a: "LSUNCustomDataLoader_init w root cls tr tt = Inr (D, w')"
  then obtain cs ds where
    v: "verify_classes cls = Inr cs"
    and o: "open_dbs w root tr cs [] = Inr (ds, w')"
    and D: "D = assemble cs ds tr tt"
    by (auto simp: LSUNCustomDataLoader_init_def split: sum.splits)
  from open_dbs_Inr [OF o] obtain evs where
    n: "length ds = length cs"
       "\<forall>db\<in>set ds. \<exists>e. stores w root = Some e \<and> db_env db = e \<and> LSUNClass_len db = entries e"
       "trace w' = trace w @ evs" "opened evs = replicate (length cs) root"
    by auto
  have 1: "length (dbs D) = length (classes D)"
    using n(1) by (simp add: D dbs_assemble classes_assemble)
  have 2: "\<forall>db\<in>set (dbs D). \<exists>e. stores w root = Some e \<and> db_env db = e
            \<and> LSUNClass_len db = entries e"
    using n(2) by (simp add: D dbs_assemble)
  have 3: "opened (drop (length (trace w)) (trace w')) = replicate (length (classes D)) root"
    using n(3,4) by (simp add: D classes_assemble)
  have 4: "\<forall>a\<in>set (dbs D). \<forall>b\<in>set (dbs D). LSUNClass_len a = LSUNClass_len b"
  proof (intro ballI)
    fix a b assume "a \<in> set (dbs D)" "b \<in> set (dbs D)"
    with 2 obtain e e' where "stores w root = Some e" "LSUNClass_len a = entries e"
      "stores w root = Some e'" "LSUNClass_len b = entries e'" by blast
    then show "LSUNClass_len a = LSUNClass_len b" by simp
  qed
  have 5: "LSUNCustomDataLoader_len D = int (length (classes D)) * int (entries e)"
    if e: "stores w root = Some e" for e
  proof -
    from n(2) e have "\<forall>db\<in>set ds. LSUNClass_len db = entries e" by auto
    from sum_list_const [OF this] n(1) show ?thesis
      by (simp add: D len_assemble classes_assemble)
  qed
  from 1 2 3 4 5 show ?thesis by blast
qed

theorem all_stores_at_root_witness:
  "LSUNCustomDataLoader_init ex_world ''data/sheep'' (PList ex_classes) None None
     = Inr (ex_dataset, ex_world_after)
   \<and> length (dbs ex_dataset) = 2
   \<and> map LSUNClass_len (dbs ex_dataset) = [2, 2]
   \<and> opened (trace ex_world_after) = [''data/sheep'', ''data/sheep'']
   \<and> LSUNCustomDataLoader_len ex_dataset = 2 * 2"
  using all_stores_at_root [OF ex_init] ex_init
  by (simp add: ex_dataset_def dbs_assemble classes_assemble len_assemble ex_classes_def
      ex_db_def LSUNClass_len_def ex_world_after_def ex_world_def)

section \<open>Fetching an item\<close>

lemma tt_assemble: "ds_target_transform (assemble cls ds tr tt) = tt"
  by (simp add: assemble_def build_indices_boundaries)

lemma resolve_beyond:
  "int (sum_list ls) \<le> i \<Longrightarrow> fst (resolve (boundaries 0 ls) i) = length ls"
  using scan_beyond [of 0 ls i 0 0] by (cases "scan i (boundaries 0 ls) 0 0") (simp add: resolve_def)

lemma resolve_negative: "i < 0 \<Longrightarrow> resolve (boundaries 0 ls) i = (0, i)"
  by (cases ls) (simp_all add: resolve_def)

lemma py_index_negative:
  "i < 0 \<Longrightarrow> py_index xs i =
     (if - int (length xs) \<le> i then Inr (xs ! nat (int (length xs) + i)) else Inl IndexError)"
  by (simp add: py_index_def)

lemma py_index_wrap:
  "i < 0 \<Longrightarrow> - int (length xs) \<le> i \<Longrightarrow> py_index xs i = py_index xs (int (length xs) + i)"
  by (simp add: py_index_def)

lemma getitem_assemble_beyond:
  assumes "resolve (boundaries 0 (map LSUNClass_len ds)) i = (k, j)" and "length ds \<le> k"
  shows "LSUNCustomDataLoader_getitem decode (assemble cls ds tr tt) i = Inl IndexError"
  using assms
  by (simp add: LSUNCustomDataLoader_getitem_def assemble_def build_indices_boundaries)

lemma getitem_assemble_None:
  assumes "resolve (boundaries 0 (map LSUNClass_len ds)) i = (k, j)" and "k < length ds"
  shows "LSUNCustomDataLoader_getitem decode (assemble cls ds tr None) i =
     (case LSUNClass_getitem decode (ds ! k) j of
        Inl e \<Rightarrow> Inl e
      | Inr (img, _) \<Rightarrow> Inr (img, PInt (int k)))"
  using assms
  by (simp add: LSUNCustomDataLoader_getitem_def assemble_def build_indices_boundaries
      cong: sum.case_cong)

lemma getitem_assemble_Some:
  assumes "resolve (boundaries 0 (map LSUNClass_len ds)) i = (k, j)" and "k < length ds"
  shows "LSUNCustomDataLoader_getitem decode (assemble cls ds tr (Some f)) i =
     (case f (PInt (int k)) of
        Inl e \<Rightarrow> Inl e
      | Inr label \<Rightarrow>
          (case LSUNClass_getitem decode (ds ! k) j of
             Inl e \<Rightarrow> Inl e
           | Inr (img, _) \<Rightarrow> Inr (img, label)))"
  using assms
  by (simp add: LSUNCustomDataLoader_getitem_def assemble_def build_indices_boundaries
      cong: sum.case_cong)

lemma ex_db_getitem:
  assumes "py_index ks i = Inr k"
  shows "LSUNClass_getitem ex_decode (ex_db ks) i = Inr (''img:'' @ k, PNone)"
proof -
  from assms have "k \<in> set ks"
    by (auto simp: py_index_def split: if_splits)
  with assms show ?thesis
    by (simp add: LSUNClass_getitem_def ex_db_def ex_env_def ex_decode_def)
qed

lemma ex_db_len: "LSUNClass_len (ex_db ks) = length ks"
  by (simp add: LSUNClass_len_def ex_db_def)

lemma ex_db_keys: "db_keys (ex_db ks) = ks"
  by (simp add: ex_db_def)

lemma resolve_valid:
  assumes "0 \<le> i" "i < LSUNCustomDataLoader_len (assemble cls ds tr tt)"
  shows "\<exists>k j. resolve (boundaries 0 (map LSUNClass_len ds)) i = (k, j) \<and> k < length ds"
proof -
  from assms have i: "0 \<le> i" "i < int (sum_list (map LSUNClass_len ds))"
    by (simp_all add: len_assemble)
  from resolve_inside [OF i] show ?thesis by auto
qed

text \<open>
  Claim C2, as stated, fails for negative indices: on the dataset built from the example
  world (two stores of two keys each), index \<open>-1\<close> fetches the last entry of store \<open>0\<close>
  with label \<open>0\<close>, where the claim wants an \<open>IndexOutOfRange\<close> error.
\<close>

theorem ex_getitem_minus_one_counterexample:
  "LSUNCustomDataLoader_init ex_world ''data/sheep'' (PList ex_classes) None None
     = Inr (ex_dataset, ex_world_after)
   \<and> LSUNCustomDataLoader_getitem ex_decode ex_dataset (- 1) = Inr (''img:k1'', PInt 0)"
proof -
  let ?ds = "[ex_db [''k0'', ''k1''], ex_db [''k0'', ''k1'']]"
  have r: "resolve (boundaries 0 (map LSUNClass_len ?ds)) (- 1) = (0, - 1)"
    by (simp add: resolve_def ex_db_len)
  have "py_index [''k0'', ''k1''] (- 1) = Inr ''k1''" by (simp add: py_index_def)
  from ex_db_getitem [OF this]
  have g: "LSUNClass_getitem ex_decode (ex_db [''k0'', ''k1'']) (- 1) = Inr (''img:k1'', PNone)"
    by simp
  have "LSUNCustomDataLoader_getitem ex_decode ex_dataset (- 1) = Inr (''img:k1'', PInt 0)"
    unfolding ex_dataset_def using getitem_assemble_None [OF r, of ex_decode ex_classes None]
    by (simp add: g)
  with ex_init show ?thesis by simp
qed

text \<open>
  Claim C2, amended. A global index \<open>i\<close> equal to or above the total length fails with
  \<open>IndexError\<close>. A negative global index \<open>n\<close> is not rejected by the scan: it resolves to
  store \<open>0\<close> with local index \<open>n\<close>. With no store the fetch at \<open>n\<close> fails with \<open>IndexError\<close>.
  With a store, the fetch at \<open>n\<close> is the fetch of store \<open>0\<close> at \<open>n\<close> with label \<open>0\<close>: without
  a label transform its item paired with \<open>0\<close>, or its error; with a label transform \<open>f\<close>
  the error of \<open>f(0)\<close> if it raises, otherwise the item paired with the result of \<open>f(0)\<close>,
  or the store fetch's error. In the fetch of store \<open>0\<close> the list indexing of the key list
  counts \<open>n\<close> from the end: below \<open>-len(keys)\<close> it fails with \<open>IndexError\<close>, and from
  \<open>-len(keys)\<close> on it is the store's fetch at \<open>len(keys) + n\<close>.
\<close>

theorem getitem_out_of_range:
  "(LSUNCustomDataLoader_len (assemble cls ds tr tt) \<le> i \<longrightarrow>
      LSUNCustomDataLoader_getitem decode (assemble cls ds tr tt) i = Inl IndexError)
   \<and> (n < 0 \<longrightarrow>
        resolve (indices (assemble cls ds tr tt)) n = (0, n)
      \<and> (ds = [] \<longrightarrow>
            LSUNCustomDataLoader_getitem decode (assemble cls ds tr tt) n = Inl IndexError)
      \<and> (ds \<noteq> [] \<and> tt = None \<longrightarrow>
            LSUNCustomDataLoader_getitem decode (assemble cls ds tr tt) n =
              (case LSUNClass_getitem decode (ds ! 0) n of
                 Inl e \<Rightarrow> Inl e
               | Inr (img, _) \<Rightarrow> Inr (img, PInt 0)))
      \<and> (ds \<noteq> [] \<and> tt = Some f \<longrightarrow>
            LSUNCustomDataLoader_getitem decode (assemble cls ds tr tt) n =
              (case f (PInt 0) of
                 Inl e \<Rightarrow> Inl e
               | Inr label \<Rightarrow>
                   (case LSUNClass_getitem decode (ds ! 0) n of
                      Inl e \<Rightarrow> Inl e
                    | Inr (img, _) \<Rightarrow> Inr (img, label))))
      \<and> (n < - int (length (db_keys (ds ! 0))) \<longrightarrow>
            LSUNClass_getitem decode (ds ! 0) n = Inl IndexError)
      \<and> (- int (length (db_keys (ds ! 0))) \<le> n \<longrightarrow>
            LSUNClass_getitem decode (ds ! 0) n =
              LSUNClass_getitem decode (ds ! 0) (int (length (db_keys (ds ! 0))) + n)))"
proof (intro conjI impI)
  assume "LSUNCustomDataLoader_len (assemble cls ds tr tt) \<le> i"
  then have "int (sum_list (map LSUNClass_len ds)) \<le> i" by (simp add: len_assemble)
  from resolve_beyond [OF this]
  show "LSUNCustomDataLoader_getitem decode (assemble cls ds tr tt) i = Inl IndexError"
    by (cases "resolve (boundaries 0 (map LSUNClass_len ds)) i")
      (simp add: getitem_assemble_beyond)
next
  assume n: "n < 0"
  then have r': "resolve (boundaries 0 (map LSUNClass_len ds)) n = (0, n)"
    by (rule resolve_negative)
  then show r: "resolve (indices (assemble cls ds tr tt)) n = (0, n)"
    by (simp add: indices_assemble)
  show "LSUNCustomDataLoader_getitem decode (assemble cls ds tr tt) n = Inl IndexError"
    if "ds = []"
  proof -
    from that have "length ds \<le> 0" by simp
    from getitem_assemble_beyond [OF r' this] show ?thesis .
  qed
  show "LSUNCustomDataLoader_getitem decode (assemble cls ds tr tt) n =
              (case LSUNClass_getitem decode (ds ! 0) n of
                 Inl e \<Rightarrow> Inl e
               | Inr (img, _) \<Rightarrow> Inr (img, PInt 0))"
    if "ds \<noteq> [] \<and> tt = None"
    using that getitem_assemble_None [OF r', of decode cls tr]
    by (simp cong: sum.case_cong prod.case_cong)
  show "LSUNCustomDataLoader_getitem decode (assemble cls ds tr tt) n =
              (case f (PInt 0) of
                 Inl e \<Rightarrow> Inl e
               | Inr label \<Rightarrow>
                   (case LSUNClass_getitem decode (ds ! 0) n of
                      Inl e \<Rightarrow> Inl e
                    | Inr (img, _) \<Rightarrow> Inr (img, label)))"
    if "ds \<noteq> [] \<and> tt = Some f"
    using that getitem_assemble_Some [OF r', of decode cls tr f]
    by (simp cong: sum.case_cong prod.case_cong)
  show "LSUNClass_getitem decode (ds ! 0) n = Inl IndexError"
    if "n < - int (length (db_keys (ds ! 0)))"
    using that n by (simp add: LSUNClass_getitem_def py_index_negative)
  show "LSUNClass_getitem decode (ds ! 0) n =
              LSUNClass_getitem decode (ds ! 0) (int (length (db_keys (ds ! 0))) + n)"
    if "- int (length (db_keys (ds ! 0))) \<le> n"
    using py_index_wrap [OF n that] by (simp add: LSUNClass_getitem_def)
qed

theorem getitem_out_of_range_witness:
  "LSUNCustomDataLoader_len (assemble [] [ex_db3, ex_db5] None None) \<le> 8
   \<and> LSUNCustomDataLoader_getitem ex_decode (assemble [] [ex_db3, ex_db5] None None) 8
        = Inl IndexError
   \<and> (- 1 :: int) < 0 \<and> [ex_db3, ex_db5] \<noteq> []
   \<and> - int (length (db_keys ([ex_db3, ex_db5] ! 0))) \<le> - 1
   \<and> resolve (indices (assemble [] [ex_db3, ex_db5] None None)) (- 1) = (0, - 1)
   \<and> LSUNClass_getitem ex_decode ([ex_db3, ex_db5] ! 0) (- 1)
        = LSUNClass_getitem ex_decode ([ex_db3, ex_db5] ! 0) 2
   \<and> LSUNCustomDataLoader_getitem ex_decode (assemble [] [ex_db3, ex_db5] None None) (- 1)
        = Inr (''img:a2'', PInt 0)"
proof -
  have "py_index [''a0'', ''a1'', ''a2''] (- 1) = Inr ''a2''" by (simp add: py_index_def)
  from ex_db_getitem [OF this]
  have g: "LSUNClass_getitem ex_decode ([ex_db3, ex_db5] ! 0) (- 1) = Inr (''img:a2'', PNone)"
    by (simp add: ex_db3_def)
  have l: "LSUNCustomDataLoader_len (assemble [] [ex_db3, ex_db5] None None) \<le> 8"
    by (simp add: len_assemble ex_db3_def ex_db5_def ex_db_len)
  have n: "(- 1 :: int) < 0" by simp
  have k: "- int (length (db_keys ([ex_db3, ex_db5] ! 0))) \<le> - 1"
    by (simp add: ex_db3_def ex_db_keys)
  have ne: "[ex_db3, ex_db5] \<noteq> []" by simp
  note inst = getitem_out_of_range [of "[]" "[ex_db3, ex_db5]" None None 8 ex_decode "- 1"]
  from inst l have 1: "LSUNCustomDataLoader_getitem ex_decode
      (assemble [] [ex_db3, ex_db5] None None) 8 = Inl IndexError" by blast
  from inst n have 2: "resolve (indices (assemble [] [ex_db3, ex_db5] None None)) (- 1) = (0, - 1)"
    by blast
  from inst n k have 3: "LSUNClass_getitem ex_decode ([ex_db3, ex_db5] ! 0) (- 1)
        = LSUNClass_getitem ex_decode ([ex_db3, ex_db5] ! 0)
            (int (length (db_keys ([ex_db3, ex_db5] ! 0))) + - 1)" by blast
  then have 3: "LSUNClass_getitem ex_decode ([ex_db3, ex_db5] ! 0) (- 1)
        = LSUNClass_getitem ex_decode ([ex_db3, ex_db5] ! 0) 2"
    by (simp add: ex_db3_def ex_db_keys)
  from inst n ne have "LSUNCustomDataLoader_getitem ex_decode
        (assemble [] [ex_db3, ex_db5] None None) (- 1) =
          (case LSUNClass_getitem ex_decode ([ex_db3, ex_db5] ! 0) (- 1) of
             Inl e \<Rightarrow> Inl e
           | Inr (img, _) \<Rightarrow> Inr (img, PInt 0))" by blast
  then have 4: "LSUNCustomDataLoader_getitem ex_decode
        (assemble [] [ex_db3, ex_db5] None None) (- 1) = Inr (''img:a2'', PInt 0)"
    unfolding g by simp
  from l 1 n ne k 2 3 4 show ?thesis by blast
qed

text \<open>
  Claim C7, as stated, fails: the fetch does not return a pair for every valid global
  index. On the dataset built over the store with the stale cache file (two entries
  reported, one cached key), the valid index \<open>1\<close> fails with \<open>IndexError\<close>.
\<close>

theorem getitem_valid_index_fails_counterexample:
  "LSUNCustomDataLoader_init ex_stale_world ''data/sheep'' (PList [PStr ''sheep_train''])
       None None = Inr (ex_stale_dataset, ex_stale_world_after)
   \<and> (0::int) \<le> 1 \<and> 1 < LSUNCustomDataLoader_len ex_stale_dataset
   \<and> LSUNCustomDataLoader_getitem ex_decode ex_stale_dataset 1 = Inl IndexError"
proof -
  have l: "LSUNClass_len ex_stale_db = 2" by (simp add: LSUNClass_len_def ex_stale_db_def)
  have r: "resolve (boundaries 0 (map LSUNClass_len [ex_stale_db])) 1 = (0, 1)"
    by (simp add: resolve_def l)
  have g: "LSUNClass_getitem ex_decode ex_stale_db 1 = Inl IndexError"
    by (simp add: LSUNClass_getitem_def ex_stale_db_def py_index_def)
  have "LSUNCustomDataLoader_getitem ex_decode ex_stale_dataset 1 = Inl IndexError"
    unfolding ex_stale_dataset_def
    using getitem_assemble_None [OF r, of ex_decode "[PStr ''sheep_train'']" None]
    by (simp add: g)
  moreover have "1 < LSUNCustomDataLoader_len ex_stale_dataset"
    by (simp add: ex_stale_dataset_def len_assemble l)
  ultimately show ?thesis using ex_stale_dataset_init by simp
qed

text \<open>
  Claim C7, amended. For a dataset that the constructor returned and a global index in
  \<open>[0, total_length)\<close>, the scan resolves a store index \<open>k\<close> that is a position in the
  resolved class list, and a local index \<open>j\<close>. Without a label transform the fetch is the
  item of the fetch of store \<open>k\<close> at \<open>j\<close> paired with the label \<open>k\<close>, or that fetch's error.
  With a label transform \<open>f\<close> it is the error of \<open>f(k)\<close> if \<open>f\<close> raises, otherwise the item
  of the store's fetch paired with the result of \<open>f(k)\<close>, or the store fetch's error. So
  whenever the fetch returns \<open>(item, label)\<close>, the item is the one store \<open>k\<close> returns at
  \<open>j\<close> and the label is \<open>k\<close>, or \<open>f(k)\<close> when \<open>f\<close> is supplied; it does not return for every
  valid index.
\<close>

theorem getitem_label:
  assumes "LSUNCustomDataLoader_init w root cls tr tt = Inr (D, w')"
      and "0 \<le> i" and "i < LSUNCustomDataLoader_len D"
  shows "\<exists>k j. resolve (indices D) i = (k, j) \<and> k < length (classes D) \<and> k < length (dbs D)
     \<and> (tt = None \<longrightarrow>
          LSUNCustomDataLoader_getitem decode D i =
            (case LSUNClass_getitem decode (dbs D ! k) j of
               Inl e \<Rightarrow> Inl e
             | Inr (img, _) \<Rightarrow> Inr (img, PInt (int k))))
     \<and> (\<forall>f. tt = Some f \<longrightarrow>
          LSUNCustomDataLoader_getitem decode D i =
            (case f (PInt (int k)) of
               Inl e \<Rightarrow> Inl e
             | Inr label \<Rightarrow>
                 (case LSUNClass_getitem decode (dbs D ! k) j of
                    Inl e \<Rightarrow> Inl e
                  | Inr (img, _) \<Rightarrow> Inr (img, label))))
     \<and> (\<forall>item label.
          LSUNCustomDataLoader_getitem decode D i = Inr (item, label) \<longrightarrow>
            (tt = None \<longrightarrow> label = PInt (int k))
          \<and> (\<forall>f. tt = Some f \<longrightarrow> f (PInt (int k)) = Inr label)
          \<and> (\<exists>t. LSUNClass_getitem decode (dbs D ! k) j = Inr (item, t)))"
proof -
  from assms(1) obtain cs ds where
    o: "open_dbs w root tr cs [] = Inr (ds, w')"
    and D: "D = assemble cs ds tr tt"
    by (auto simp: LSUNCustomDataLoader_init_def split: sum.splits)
  from open_dbs_Inr [OF o] have len: "length ds = length cs" by auto
  from resolve_valid [of i cs ds tr tt] assms(2,3) obtain k j where
    r: "resolve (boundaries 0 (map LSUNClass_len ds)) i = (k, j)" and k: "k < length ds"
    unfolding D by blast
  have 0: "resolve (indices D) i = (k, j)" using r by (simp add: D indices_assemble)
  have 1: "k < length (classes D)" "k < length (dbs D)" and ds: "dbs D = ds"
    using k len by (simp_all add: D classes_assemble dbs_assemble)
  have 2: "tt = None \<longrightarrow>
          LSUNCustomDataLoader_getitem decode D i =
            (case LSUNClass_getitem decode (dbs D ! k) j of
               Inl e \<Rightarrow> Inl e
             | Inr (img, _) \<Rightarrow> Inr (img, PInt (int k)))"
    using getitem_assemble_None [OF r k, of decode cs tr]
    by (simp add: D dbs_assemble cong: sum.case_cong prod.case_cong)
  have 3: "\<forall>f. tt = Some f \<longrightarrow>
          LSUNCustomDataLoader_getitem decode D i =
            (case f (PInt (int k)) of
               Inl e \<Rightarrow> Inl e
             | Inr label \<Rightarrow>
                 (case LSUNClass_getitem decode (dbs D ! k) j of
                    Inl e \<Rightarrow> Inl e
                  | Inr (img, _) \<Rightarrow> Inr (img, label)))"
    using getitem_assemble_Some [OF r k, of decode cs tr]
    by (simp add: D dbs_assemble cong: sum.case_cong prod.case_cong)
  have 4: "\<forall>item label.
          LSUNCustomDataLoader_getitem decode D i = Inr (item, label) \<longrightarrow>
            (tt = None \<longrightarrow> label = PInt (int k))
          \<and> (\<forall>f. tt = Some f \<longrightarrow> f (PInt (int k)) = Inr label)
          \<and> (\<exists>t. LSUNClass_getitem decode (dbs D ! k) j = Inr (item, t))"
  proof (cases tt)
    case None
    with 2 show ?thesis by (auto split: sum.splits)
  next
    case (Some f)
    with 3 show ?thesis by (auto split: sum.splits)
  qed
  from 0 1 2 3 4 show ?thesis by blast
qed

theorem getitem_label_witness:
  "LSUNCustomDataLoader_init ex_world ''data/sheep'' (PList ex_classes) None None
     = Inr (ex_dataset, ex_world_after)
   \<and> (0::int) \<le> 3 \<and> 3 < LSUNCustomDataLoader_len ex_dataset
   \<and> resolve (indices ex_dataset) 3 = (1, 1)
   \<and> LSUNCustomDataLoader_getitem ex_decode ex_dataset 3 = Inr (''img:k1'', PInt 1)
   \<and> classes ex_dataset ! 1 = PStr ''bedroom_val''
   \<and> LSUNCustomDataLoader_init ex_world ''data/sheep'' (PList ex_classes) None (Some ex_label)
     = Inr (ex_labelled_dataset, ex_world_after)
   \<and> 3 < LSUNCustomDataLoader_len ex_labelled_dataset
   \<and> LSUNCustomDataLoader_getitem ex_decode ex_labelled_dataset 3 = Inr (''img:k1'', PInt 10)"
proof -
  have a: "(0::int) \<le> 3" by simp
  have b: "3 < LSUNCustomDataLoader_len ex_dataset"
    by (simp add: ex_dataset_def len_assemble ex_db_len)
  have b': "3 < LSUNCustomDataLoader_len ex_labelled_dataset"
    by (simp add: ex_labelled_dataset_def len_assemble ex_db_len)
  have c: "resolve (indices ex_dataset) 3 = (1, 1)"
    by (simp add: ex_dataset_def indices_assemble resolve_def ex_db_len)
  have c': "resolve (indices ex_labelled_dataset) 3 = (1, 1)"
    by (simp add: ex_labelled_dataset_def indices_assemble resolve_def ex_db_len)
  have "py_index [''k0'', ''k1''] 1 = Inr ''k1''" by (simp add: py_index_def)
  note g = ex_db_getitem [OF this]
  have d: "LSUNClass_getitem ex_decode (dbs ex_dataset ! 1) 1 = Inr (''img:k1'', PNone)"
    using g by (simp add: ex_dataset_def dbs_assemble)
  have d': "LSUNClass_getitem ex_decode (dbs ex_labelled_dataset ! 1) 1
      = Inr (''img:k1'', PNone)"
    using g by (simp add: ex_labelled_dataset_def dbs_assemble)
  from getitem_label [OF ex_init a b, of ex_decode] obtain k j where
    kj: "resolve (indices ex_dataset) 3 = (k, j)"
    and eq: "LSUNCustomDataLoader_getitem ex_decode ex_dataset 3 =
            (case LSUNClass_getitem ex_decode (dbs ex_dataset ! k) j of
               Inl e \<Rightarrow> Inl e
             | Inr (img, _) \<Rightarrow> Inr (img, PInt (int k)))"
    by blast
  from kj c have k1: "k = 1" and j1: "j = 1" by simp_all
  from eq have f: "LSUNCustomDataLoader_getitem ex_decode ex_dataset 3
      = Inr (''img:k1'', PInt 1)"
    unfolding k1 j1 d by simp
  from getitem_label [OF ex_labelled_init a b', of ex_decode] obtain k' j' where
    kj': "resolve (indices ex_labelled_dataset) 3 = (k', j')"
    and eq': "LSUNCustomDataLoader_getitem ex_decode ex_labelled_dataset 3 =
            (case ex_label (PInt (int k')) of
               Inl e \<Rightarrow> Inl e
             | Inr label \<Rightarrow>
                 (case LSUNClass_getitem ex_decode (dbs ex_labelled_dataset ! k') j' of
                    Inl e \<Rightarrow> Inl e
                  | Inr (img, _) \<Rightarrow> Inr (img, label)))"
    by blast
  from kj' c' have k1': "k' = 1" and j1': "j' = 1" by simp_all
  from eq' have f': "LSUNCustomDataLoader_getitem ex_decode ex_labelled_dataset 3
      = Inr (''img:k1'', PInt 10)"
    unfolding k1' j1' d' by simp
  have h: "classes ex_dataset ! 1 = PStr ''bedroom_val''"
    by (simp add: ex_dataset_def classes_assemble ex_classes_def)
  from ex_init a b c f h ex_labelled_init b' f' show ?thesis by blast
qed

section \<open>Explicit class lists and bare strings\<close>

lemma py_split_ne [simp]: "py_split sep s \<noteq> []"
  by (induction s) simp_all

lemma py_join_Cons_Cons: "py_join sep ((c # x) # xs) = c # py_join sep (x # xs)"
  by (cases xs) simp_all

lemma py_join_Nil_Cons: "xs \<noteq> [] \<Longrightarrow> py_join sep ([] # xs) = sep @ py_join sep xs"
  by (cases xs) simp_all

lemma py_join_split: "py_join [sep] (py_split sep s) = s"
proof (induction s)
  case Nil
  then show ?case by simp
next
  case (Cons c cs)
  have "py_join [sep] ((c # hd (py_split sep cs)) # tl (py_split sep cs))
          = c # py_join [sep] (hd (py_split sep cs) # tl (py_split sep cs))"
    by (rule py_join_Cons_Cons)
  with Cons show ?case by (simp add: py_join_Nil_Cons)
qed

lemma last_py_split_no_sep: "sep \<notin> set (last (py_split sep s))"
proof (induction s)
  case Nil
  then show ?case by simp
next
  case (Cons c cs)
  show ?case
  proof (cases "tl (py_split sep cs) = []")
    case True
    then have "last (py_split sep cs) = hd (py_split sep cs)"
      by (cases "py_split sep cs") simp_all
    with Cons True show ?thesis by auto
  next
    case False
    then have "last (py_split sep cs) = last (tl (py_split sep cs))"
      by (cases "py_split sep cs") simp_all
    with Cons False show ?thesis by auto
  qed
qed

lemma py_split_no_sep: "sep \<notin> set s \<Longrightarrow> py_split sep s = [s]"
  by (induction s) auto

lemma py_split_sep_length: "sep \<in> set s \<Longrightarrow> 2 \<le> length (py_split sep s)"
proof (induction s)
  case Nil
  then show ?case by simp
next
  case (Cons c cs)
  have "1 \<le> length (py_split sep cs)" by (cases "py_split sep cs") simp_all
  with Cons show ?case by (cases "c = sep") auto
qed

lemma py_join_butlast_last:
  "2 \<le> length ps \<Longrightarrow> py_join sep (butlast ps) @ sep @ last ps = py_join sep ps"
proof (induction sep ps rule: py_join.induct)
  case (1 sep)
  then show ?case by simp
next
  case (2 sep x)
  then show ?case by simp
next
  case (3 sep x y ys)
  show ?case
  proof (cases ys)
    case Nil
    then show ?thesis by simp
  next
    case (Cons z zs)
    with 3 show ?thesis by simp
  qed
qed

lemma split_last_underscore:
  "(CHR ''_'' \<in> set c \<longrightarrow> c = category_part c @ ''_'' @ dset_opt_part c)
   \<and> CHR ''_'' \<notin> set (dset_opt_part c)
   \<and> (CHR ''_'' \<notin> set c \<longrightarrow> category_part c = [] \<and> dset_opt_part c = c)"
proof (intro conjI impI)
  assume "CHR ''_'' \<in> set c"
  from py_join_butlast_last [OF py_split_sep_length [OF this], of "''_''"]
  show "c = category_part c @ ''_'' @ dset_opt_part c"
    by (simp add: category_part_def dset_opt_part_def py_join_split)
next
  show "CHR ''_'' \<notin> set (dset_opt_part c)"
    by (simp add: dset_opt_part_def last_py_split_no_sep)
next
  assume "CHR ''_'' \<notin> set c"
  then show "category_part c = []" "dset_opt_part c = c"
    by (simp_all add: category_part_def dset_opt_part_def py_split_no_sep)
qed

lemma verify_element_PStr:
  "verify_element (PStr c) =
     (if category_part c \<notin> set categories then
        Inl (ValueError (msg_fmtstr (category_part c) ''LSUN class'' (iterable_to_str categories)))
      else if dset_opt_part c \<notin> set dset_opts then
        Inl (ValueError (msg_fmtstr (dset_opt_part c) ''postfix'' (iterable_to_str dset_opts)))
      else Inr ())"
  by (simp add: verify_element_def verify_str_arg_def Let_def category_part_def
      dset_opt_part_def)

lemma verify_elements_valid:
  "\<forall>x\<in>set pre. valid_element x \<Longrightarrow>
     verify_elements (map PStr pre @ rest) = verify_elements rest"
  by (induction pre) (simp_all add: verify_element_PStr valid_element_def)

lemma verify_classes_PList:
  "verify_classes (PList xs) =
     (case verify_elements xs of Inl e \<Rightarrow> Inl e | Inr _ \<Rightarrow> Inr xs)"
  by (simp add: verify_classes_def verify_str_arg_def)

lemma verify_classes_PStr_other:
  "s \<notin> set dset_opts \<Longrightarrow>
     verify_classes (PStr s) =
       (case verify_elements (map (\<lambda>ch. PStr [ch]) s) of
          Inl e \<Rightarrow> Inl e | Inr _ \<Rightarrow> Inr (map (\<lambda>ch. PStr [ch]) s))"
  by (simp add: verify_classes_def verify_str_arg_def)

lemma category_part_char: "category_part [ch] = []"
  by (simp add: category_part_def)

lemma empty_not_category: "[] \<notin> set categories"
  by (simp add: categories_def)

lemma verify_element_char:
  "verify_element (PStr [ch]) =
     Inl (ValueError (msg_fmtstr [] ''LSUN class'' (iterable_to_str categories)))"
  by (simp add: verify_element_PStr category_part_char empty_not_category)

text \<open>
  Claim C6. An element is cut at its last underscore: with an underscore in it, it is
  category, underscore, split, and the split part has no underscore; without one, the
  category part is empty and the split part is the element. For a list of strings, the
  first element that fails a check decides the error: a category part outside the
  vocabulary gives the \<open>ValueError\<close> whose message quotes that part and lists the
  vocabulary; otherwise a split part outside train, val, test gives the one that quotes
  the split part and lists the three. The list \<open>[bedroom_train, nope_val]\<close> fails with
  the message that quotes \<open>nope\<close>. A list whose elements all pass is returned as it is:
  same order, same length, duplicates kept.
\<close>

theorem verify_classes_explicit_list:
  "((CHR ''_'' \<in> set c \<longrightarrow> c = category_part c @ ''_'' @ dset_opt_part c)
     \<and> CHR ''_'' \<notin> set (dset_opt_part c)
     \<and> (CHR ''_'' \<notin> set c \<longrightarrow> category_part c = [] \<and> dset_opt_part c = c))
   \<and> ((\<forall>x\<in>set pre. valid_element x) \<and> category_part c \<notin> set categories \<longrightarrow>
        verify_classes (PList (map PStr (pre @ c # rest))) =
          Inl (ValueError (msg_fmtstr (category_part c) ''LSUN class''
                             (iterable_to_str categories))))
   \<and> ((\<forall>x\<in>set pre. valid_element x) \<and> category_part c \<in> set categories
        \<and> dset_opt_part c \<notin> set dset_opts \<longrightarrow>
        verify_classes (PList (map PStr (pre @ c # rest))) =
          Inl (ValueError (msg_fmtstr (dset_opt_part c) ''postfix''
                             (iterable_to_str dset_opts))))
   \<and> verify_classes (PList [PStr ''bedroom_train'', PStr ''nope_val'']) =
        Inl (ValueError ''Unknown value 'nope' for LSUN class. Valid values are {'sheep', 'bedroom', 'bridge', 'church_outdoor', 'classroom', 'conference_room', 'dining_room', 'kitchen', 'living_room', 'restaurant', 'tower'}.'')
   \<and> ((\<forall>x\<in>set cs. valid_element x) \<longrightarrow>
        verify_classes (PList (map PStr cs)) = Inr (map PStr cs)
        \<and> length (map PStr cs) = length cs)"
proof (intro conjI impI)
  show "CHR ''_'' \<in> set c \<Longrightarrow> c = category_part c @ ''_'' @ dset_opt_part c"
    and "CHR ''_'' \<notin> set (dset_opt_part c)"
    and "CHR ''_'' \<notin> set c \<Longrightarrow> category_part c = []"
    and "CHR ''_'' \<notin> set c \<Longrightarrow> dset_opt_part c = c"
    using split_last_underscore [of c] by blast+
next
  assume "(\<forall>x\<in>set pre. valid_element x) \<and> category_part c \<notin> set categories"
  then have v: "\<forall>x\<in>set pre. valid_element x" and c: "category_part c \<notin> set categories"
    by blast+
  from verify_elements_valid [OF v, of "PStr c # map PStr rest"] c
  show "verify_classes (PList (map PStr (pre @ c # rest))) =
          Inl (ValueError (msg_fmtstr (category_part c) ''LSUN class''
                             (iterable_to_str categories)))"
    by (simp add: verify_classes_PList verify_element_PStr)
next
  assume "(\<forall>x\<in>set pre. valid_element x) \<and> category_part c \<in> set categories
        \<and> dset_opt_part c \<notin> set dset_opts"
  then have v: "\<forall>x\<in>set pre. valid_element x" and c: "category_part c \<in> set categories"
    "dset_opt_part c \<notin> set dset_opts"
    by blast+
  from verify_elements_valid [OF v, of "PStr c # map PStr rest"] c
  show "verify_classes (PList (map PStr (pre @ c # rest))) =
          Inl (ValueError (msg_fmtstr (dset_opt_part c) ''postfix''
                             (iterable_to_str dset_opts)))"
    by (simp add: verify_classes_PList verify_element_PStr)
next
  have a: "verify_element (PStr ''bedroom_train'') = Inr ()"
    by (simp add: verify_element_def verify_str_arg_def categories_def dset_opts_def)
  have b: "category_part ''nope_val'' = ''nope''"
    by (simp add: category_part_def)
  have "''nope'' \<notin> set categories" by (simp add: categories_def)
  with b have "verify_element (PStr ''nope_val'') =
      Inl (ValueError (msg_fmtstr ''nope'' ''LSUN class'' (iterable_to_str categories)))"
    by (simp add: verify_element_PStr)
  moreover have "msg_fmtstr ''nope'' ''LSUN class'' (iterable_to_str categories)
      = ''Unknown value 'nope' for LSUN class. Valid values are {'sheep', 'bedroom', 'bridge', 'church_outdoor', 'classroom', 'conference_room', 'dining_room', 'kitchen', 'living_room', 'restaurant', 'tower'}.''"
    by (simp add: msg_fmtstr_def iterable_to_str_def categories_def)
  ultimately show "verify_classes (PList [PStr ''bedroom_train'', PStr ''nope_val'']) =
        Inl (ValueError ''Unknown value 'nope' for LSUN class. Valid values are {'sheep', 'bedroom', 'bridge', 'church_outdoor', 'classroom', 'conference_room', 'dining_room', 'kitchen', 'living_room', 'restaurant', 'tower'}.'')"
    by (simp add: verify_classes_PList a)
next
  assume v: "\<forall>x\<in>set cs. valid_element x"
  from verify_elements_valid [OF v, of "[]"]
  show "verify_classes (PList (map PStr cs)) = Inr (map PStr cs)"
    by (simp add: verify_classes_PList)
  show "length (map PStr cs) = length cs" by simp
qed

theorem verify_classes_explicit_list_witness:
  "valid_element ''bedroom_train'' \<and> valid_element ''tower_val''
   \<and> CHR ''_'' \<in> set ''xx_y_train''
   \<and> category_part ''xx_y_train'' = ''xx_y'' \<and> dset_opt_part ''xx_y_train'' = ''train''
   \<and> category_part ''xx_y_train'' \<notin> set categories
   \<and> verify_classes (PList (map PStr ([''bedroom_train''] @ ''xx_y_train'' # [''tower_val'']))) =
        Inl (ValueError (msg_fmtstr ''xx_y'' ''LSUN class'' (iterable_to_str categories)))
   \<and> verify_classes (PList (map PStr [''tower_val'', ''bedroom_train'', ''tower_val'']))
        = Inr (map PStr [''tower_val'', ''bedroom_train'', ''tower_val''])"
proof -
  have c: "category_part ''xx_y_train'' = ''xx_y''" "dset_opt_part ''xx_y_train'' = ''train''"
    by (simp_all add: category_part_def dset_opt_part_def)
  have nc: "category_part ''xx_y_train'' \<notin> set categories"
    by (simp add: c categories_def)
  have v1: "valid_element ''bedroom_train''" and v2: "valid_element ''tower_val''"
    by (simp_all add: valid_element_def category_part_def dset_opt_part_def categories_def
        dset_opts_def)
  have p: "\<forall>x\<in>set [''bedroom_train'']. valid_element x" using v1 by simp
  have q: "\<forall>x\<in>set [''tower_val'', ''bedroom_train'', ''tower_val'']. valid_element x"
    using v1 v2 by simp
  have u: "CHR ''_'' \<in> set ''xx_y_train''" by simp
  note inst = verify_classes_explicit_list [of "''xx_y_train''" "[''bedroom_train'']"
      "[''tower_val'']" "[''tower_val'', ''bedroom_train'', ''tower_val'']"]
  from inst p nc have 1:
    "verify_classes (PList (map PStr ([''bedroom_train''] @ ''xx_y_train'' # [''tower_val'']))) =
        Inl (ValueError (msg_fmtstr (category_part ''xx_y_train'') ''LSUN class''
               (iterable_to_str categories)))"
    by blast
  from inst q have 2:
    "verify_classes (PList (map PStr [''tower_val'', ''bedroom_train'', ''tower_val'']))
        = Inr (map PStr [''tower_val'', ''bedroom_train'', ''tower_val''])"
    by blast
  from 1 have 1: 
    "verify_classes (PList (map PStr ([''bedroom_train''] @ ''xx_y_train'' # [''tower_val'']))) =
        Inl (ValueError (msg_fmtstr ''xx_y'' ''LSUN class'' (iterable_to_str categories)))"
    unfolding c .
  from v1 v2 u c nc 1 2 show ?thesis by blast
qed

text \<open>
  Claim C10, as stated, fails for the empty string: it is not one of the three split
  names, has no character to validate, and resolves to the empty list without error.
\<close>

theorem verify_classes_empty_string_counterexample:
  "verify_classes (PStr []) = Inr []"
  by (simp add: verify_classes_def verify_str_arg_def dset_opts_def)

text \<open>
  Claim C10, amended. A string that is not one of train, val, test is treated as the list
  of its one-character strings, each validated as an element. When the string is not
  empty, the validation of its first character fails the category check, with the
  message that quotes the empty category part (not the whole string); the empty string
  resolves to the empty list.
\<close>

theorem verify_classes_bare_string:
  "s \<notin> set dset_opts \<longrightarrow>
     verify_classes (PStr s) =
       (case verify_elements (map (\<lambda>ch. PStr [ch]) s) of
          Inl e \<Rightarrow> Inl e | Inr _ \<Rightarrow> Inr (map (\<lambda>ch. PStr [ch]) s))
     \<and> (s \<noteq> [] \<longrightarrow>
          verify_element (PStr [hd s]) =
            Inl (ValueError (msg_fmtstr [] ''LSUN class'' (iterable_to_str categories)))
        \<and> verify_classes (PStr s) =
            Inl (ValueError (msg_fmtstr [] ''LSUN class'' (iterable_to_str categories))))
     \<and> (s = [] \<longrightarrow> verify_classes (PStr s) = Inr [])"
proof (intro impI conjI)
  assume s: "s \<notin> set dset_opts"
  show "verify_classes (PStr s) =
       (case verify_elements (map (\<lambda>ch. PStr [ch]) s) of
          Inl e \<Rightarrow> Inl e | Inr _ \<Rightarrow> Inr (map (\<lambda>ch. PStr [ch]) s))"
    by (rule verify_classes_PStr_other [OF s])
  show "verify_element (PStr [hd s]) =
            Inl (ValueError (msg_fmtstr [] ''LSUN class'' (iterable_to_str categories)))"
    by (rule verify_element_char)
  show "verify_classes (PStr s) =
            Inl (ValueError (msg_fmtstr [] ''LSUN class'' (iterable_to_str categories)))"
    if "s \<noteq> []"
  proof -
    from that obtain a rest where "s = a # rest" by (cases s) simp_all
    then have "verify_elements (map (\<lambda>ch. PStr [ch]) s) =
        Inl (ValueError (msg_fmtstr [] ''LSUN class'' (iterable_to_str categories)))"
      by (simp add: verify_element_char)
    then show ?thesis
      unfolding verify_classes_PStr_other [OF s] by simp
  qed
  show "verify_classes (PStr s) = Inr []" if "s = []"
    using that s by (simp add: verify_classes_PStr_other)
qed

theorem verify_classes_bare_string_witness:
  "''bedroom_train'' \<notin> set dset_opts \<and> ''bedroom_train'' \<noteq> []
   \<and> verify_element (PStr [hd ''bedroom_train'']) =
        Inl (ValueError (''Unknown value '' @ [CHR 0x27, CHR 0x27] @ '' for LSUN class. Valid values are {'sheep', 'bedroom', 'bridge', 'church_outdoor', 'classroom', 'conference_room', 'dining_room', 'kitchen', 'living_room', 'restaurant', 'tower'}.''))
   \<and> verify_classes (PStr ''bedroom_train'') =
        Inl (ValueError (''Unknown value '' @ [CHR 0x27, CHR 0x27] @ '' for LSUN class. Valid values are {'sheep', 'bedroom', 'bridge', 'church_outdoor', 'classroom', 'conference_room', 'dining_room', 'kitchen', 'living_room', 'restaurant', 'tower'}.''))"
proof -
  have a: "''bedroom_train'' \<notin> set dset_opts" by (simp add: dset_opts_def)
  have b: "''bedroom_train'' \<noteq> []" by simp
  have m: "msg_fmtstr [] ''LSUN class'' (iterable_to_str categories)
      = ''Unknown value '' @ [CHR 0x27, CHR 0x27] @ '' for LSUN class. Valid values are {'sheep', 'bedroom', 'bridge', 'church_outdoor', 'classroom', 'conference_room', 'dining_room', 'kitchen', 'living_room', 'restaurant', 'tower'}.''"
    by (simp add: msg_fmtstr_def iterable_to_str_def categories_def)
  from verify_classes_bare_string [of "''bedroom_train''"] a b
  have "verify_element (PStr [hd ''bedroom_train'']) =
            Inl (ValueError (msg_fmtstr [] ''LSUN class'' (iterable_to_str categories)))"
    and "verify_classes (PStr ''bedroom_train'') =
            Inl (ValueError (msg_fmtstr [] ''LSUN class'' (iterable_to_str categories)))"
    by blast+
  with a b show ?thesis unfolding m by blast
qed

end
